theory Spec2Isabelle
  imports Main "HOL-Library.Char_ord" "HOL-Library.List_Lexorder" "HOL-Library.Option_ord"
begin

section \<open>Byte strings of the interpreter\<close>

text \<open>
  The program is Python 2 (it uses the print statement), so \<open>str\<close> is a byte string:
  \<^typ>\<open>string\<close>. Comparison of two \<open>str\<close> values is bytewise lexicographic, which is the
  order of \<open>List_Lexorder\<close> over \<open>Char_ord\<close>.
\<close>

definition nl :: char where
  "nl = CHR 0x0A"

text \<open>The bytes that \<open>str.strip()\<close> and \<open>str.split()\<close> treat as whitespace (C locale).\<close>

definition is_space :: "char \<Rightarrow> bool" where
  "is_space c \<longleftrightarrow> c \<in> set [CHR '' '', CHR 0x09, CHR 0x0A, CHR 0x0B, CHR 0x0C, CHR 0x0D]"

text \<open>\<open>s.startswith(p)\<close>\<close>

definition startswith :: "string \<Rightarrow> string \<Rightarrow> bool" where
  "startswith s p \<longleftrightarrow> take (length p) s = p"

text \<open>\<open>sub in s\<close> for two strings: \<open>sub\<close> occurs as a contiguous slice of \<open>s\<close>.\<close>

fun contains :: "string \<Rightarrow> string \<Rightarrow> bool" where
  "contains [] sub = (sub = [])"
| "contains (c # cs) sub = (startswith (c # cs) sub \<or> contains cs sub)"

text \<open>\<open>s.strip()\<close>: whitespace removed at both ends.\<close>

definition py_strip :: "string \<Rightarrow> string" where
  "py_strip s = rev (dropWhile is_space (rev (dropWhile is_space s)))"

text \<open>\<open>s.lower()\<close>: the ASCII capitals are mapped to their small letters.\<close>

definition lower_char :: "char \<Rightarrow> char" where
  "lower_char c =
     (case map_of (zip ''ABCDEFGHIJKLMNOPQRSTUVWXYZ'' ''abcdefghijklmnopqrstuvwxyz'') c of
        None \<Rightarrow> c
      | Some d \<Rightarrow> d)"

definition py_lower :: "string \<Rightarrow> string" where
  "py_lower s = map lower_char s"

text \<open>\<open>s.split()\<close>: the maximal runs of non-whitespace bytes, in order.\<close>

fun split_ws_from :: "string \<Rightarrow> string \<Rightarrow> string list" where
  "split_ws_from cur [] = (if cur = [] then [] else [cur])"
| "split_ws_from cur (c # cs) =
     (if is_space c
      then (if cur = [] then split_ws_from [] cs else cur # split_ws_from [] cs)
      else split_ws_from (cur @ [c]) cs)"

definition split_ws :: "string \<Rightarrow> string list" where
  "split_ws s = split_ws_from [] s"

text \<open>\<open>s.split(sep)\<close> for a one-byte separator: never the empty list.\<close>

fun split_on :: "char \<Rightarrow> string \<Rightarrow> string list" where
  "split_on sep [] = [[]]"
| "split_on sep (c # cs) =
     (if c = sep then [] # split_on sep cs
      else (case split_on sep cs of
              [] \<Rightarrow> [[c]]
            | w # ws \<Rightarrow> (c # w) # ws))"

text \<open>\<open>sep.join(xs)\<close>, for sequences of any kind of element.\<close>

fun py_join :: "'a list \<Rightarrow> 'a list list \<Rightarrow> 'a list" where
  "py_join sep [] = []"
| "py_join sep [x] = x"
| "py_join sep (x # y # ys) = x @ sep @ py_join sep (y # ys)"

text \<open>
  \<open>f.readlines()\<close> on the contents of a file opened in mode \<open>'r'\<close>: the text is cut after
  every newline, each line keeps its newline, and a last line without one is kept as it is.
\<close>

fun readlines :: "string \<Rightarrow> string list" where
  "readlines [] = []"
| "readlines (c # cs) =
     (if c = nl then [nl] # readlines cs
      else (case readlines cs of
              [] \<Rightarrow> [[c]]
            | l # ls \<Rightarrow> (c # l) # ls))"

section \<open>Errors and the run-time environment\<close>

datatype error = ValueError | IndexError | KeyError | TypeError | LoadFailure

text \<open>
  What \<open>__import__(name)\<close> does in the running interpreter is a parameter of the model:
  it returns a module, of which the program reads only \<open>__repr__()\<close>; or it raises
  \<open>ImportError\<close>; or the imported code raises something else. An \<open>environment\<close> gives
  the outcome for a name whatever was loaded before; the interpreter whose outcomes depend
  on its state is modelled further down.
\<close>

datatype load_outcome = Loaded string | ImportFails | OtherFails

type_synonym environment = "string \<Rightarrow> load_outcome"

text \<open>
  \<open>load_module\<close>: the module (its repr), or \<open>None\<close> after an \<open>ImportError\<close>, which is
  the only exception caught. The message printed in that case is not part of the model.
\<close>

definition load_module :: "environment \<Rightarrow> string \<Rightarrow> error + string option" where
  "load_module env module_name =
     (case env module_name of
        Loaded module_repr \<Rightarrow> Inr (Some module_repr)
      | ImportFails \<Rightarrow> Inr None
      | OtherFails \<Rightarrow> Inl LoadFailure)"

section \<open>The module classifier\<close>

record override =
  ov_standard :: "string list"
  ov_third_party :: "string list"
  ov_local :: "string list"

definition EMPTY_OVERRIDE :: override where
  "EMPTY_OVERRIDE = \<lparr>ov_standard = [], ov_third_party = [], ov_local = []\<rparr>"

definition is_standard_module :: "environment \<Rightarrow> override option \<Rightarrow> string \<Rightarrow> error + bool" where
  "is_standard_module env override_opt module =
     (let override = (case override_opt of None \<Rightarrow> EMPTY_OVERRIDE | Some ov \<Rightarrow> ov) in
      if module \<in> set (ov_standard override) then Inr True
      else if module \<in> set (ov_third_party override) \<or> module \<in> set (ov_local override)
      then Inr False
      else (case load_module env module of
              Inl e \<Rightarrow> Inl e
            | Inr None \<Rightarrow> Inr False
            | Inr (Some module_repr) \<Rightarrow>
                Inr (\<not> contains module_repr ''site-packages'' \<and>
                     (\<exists>path \<in> set [''usr/lib/python'', ''usr/lib64/python'', ''built-in''].
                        contains module_repr path))))"

definition is_third_party_module :: "environment \<Rightarrow> override option \<Rightarrow> string \<Rightarrow> error + bool" where
  "is_third_party_module env override_opt module =
     (let override = (case override_opt of None \<Rightarrow> EMPTY_OVERRIDE | Some ov \<Rightarrow> ov) in
      if module \<in> set (ov_third_party override) then Inr True
      else if module \<in> set (ov_standard override) \<or> module \<in> set (ov_local override)
      then Inr False
      else (case load_module env module of
              Inl e \<Rightarrow> Inl e
            | Inr None \<Rightarrow> Inr False
            | Inr (Some module_repr) \<Rightarrow>
                Inr (contains module_repr ''site-packages'' \<and>
                     (\<exists>path \<in> set [''usr/lib/python'', ''usr/lib64/python''].
                        contains module_repr path))))"

section \<open>Module names\<close>

text \<open>The character class \<open>[A-Za-z_0-9\.]\<close>.\<close>

definition is_module_char :: "char \<Rightarrow> bool" where
  "is_module_char c \<longleftrightarrow>
     c \<in> set ''ABCDEFGHIJKLMNOPQRSTUVWXYZabcdefghijklmnopqrstuvwxyz_0123456789.''"

text \<open>
  \<open>re.search(r'^(from|import) (?P<module>[A-Za-z_0-9\.]+).*$', imprt_line)\<close>, without
  flags. \<open>^\<close> anchors the match at the first byte; the group is greedy, so it takes the
  whole run of class bytes; \<open>.\<close> matches every byte but the newline, and \<open>$\<close> matches at
  the end of the string or before a newline that is its last byte, so what follows the
  bytes matched by \<open>.*\<close> has to be empty or that one newline. Giving bytes of the group
  back to \<open>.*\<close> cannot turn a failure into a match.
\<close>

definition get_module_name_from_import :: "string \<Rightarrow> error + string" where
  "get_module_name_from_import imprt_line =
     (let after_keyword =
            (if startswith imprt_line ''from '' then Some (drop 5 imprt_line)
             else if startswith imprt_line ''import '' then Some (drop 7 imprt_line)
             else None)
      in case after_keyword of
           None \<Rightarrow> Inl ValueError
         | Some rest \<Rightarrow>
             (let module = takeWhile is_module_char rest;
                  at_dollar = dropWhile (\<lambda>c. c \<noteq> nl) (dropWhile is_module_char rest)
              in if module \<noteq> [] \<and> (at_dollar = [] \<or> at_dollar = [nl])
                 then Inr module
                 else Inl ValueError))"

section \<open>The import extractor\<close>

text \<open>The test of the loop of \<open>get_import_lines\<close>; \<open>and\<close> binds tighter than \<open>or\<close>.\<close>

definition is_import_line :: "string \<Rightarrow> bool" where
  "is_import_line line \<longleftrightarrow>
     startswith line ''import'' \<or>
     (startswith line ''from'' \<and> \<not> startswith line ''from __future__'')"

text \<open>The loop over the lines, on the pair \<open>(import_list, sub_list)\<close>.\<close>

fun scan_lines :: "string list \<Rightarrow> string list \<times> string list \<Rightarrow> string list \<times> string list" where
  "scan_lines [] st = st"
| "scan_lines (line # rest) (import_list, sub_list) =
     (if is_import_line line
      then scan_lines rest (import_list @ sub_list @ [py_strip line], [])
      else if line = [nl] \<and> import_list \<noteq> []
      then scan_lines rest (import_list, sub_list @ [[]])
      else scan_lines rest (import_list, sub_list))"

text \<open>\<open>get_import_lines\<close>, on the contents of the file.\<close>

definition get_import_lines :: "string \<Rightarrow> string \<times> string list" where
  "get_import_lines text =
     (let import_list = fst (scan_lines (readlines text) ([], []))
      in (py_join [nl] import_list, filter (\<lambda>i. i \<noteq> []) import_list))"

section \<open>The import grouper\<close>

text \<open>
  A value stored under a key of the grouping dictionary: the list of statements, or (once
  the orderer has rebound the key) a string.
\<close>

datatype pyval = StrList "string list" | Str string

type_synonym grouped = "string \<rightharpoonup> pyval"

text \<open>
  \<open>final_imports[key] += [import_line]\<close> on a \<open>defaultdict(list)\<close>: a missing key starts
  from the empty list. The grouper stores lists only.
\<close>

definition add_import :: "grouped \<Rightarrow> string \<Rightarrow> string \<Rightarrow> grouped" where
  "add_import final_imports key import_line =
     final_imports(key \<mapsto> StrList ((case final_imports key of
                                        Some (StrList xs) \<Rightarrow> xs
                                      | _ \<Rightarrow> []) @ [import_line]))"

fun group_lines :: "environment \<Rightarrow> override option \<Rightarrow> string list \<Rightarrow> grouped \<Rightarrow> error + grouped" where
  "group_lines env override [] final_imports = Inr final_imports"
| "group_lines env override (import_line # rest) final_imports =
     (case get_module_name_from_import import_line of
        Inl e \<Rightarrow> Inl e
      | Inr mod_name \<Rightarrow>
          if mod_name = ''.''
          then group_lines env override rest (add_import final_imports ''local'' import_line)
          else (case is_standard_module env override mod_name of
                  Inl e \<Rightarrow> Inl e
                | Inr True \<Rightarrow>
                    group_lines env override rest
                      (add_import final_imports ''standard'' import_line)
                | Inr False \<Rightarrow>
                    (case is_third_party_module env override mod_name of
                       Inl e \<Rightarrow> Inl e
                     | Inr True \<Rightarrow>
                         group_lines env override rest
                           (add_import final_imports ''third_party'' import_line)
                     | Inr False \<Rightarrow>
                         group_lines env override rest
                           (add_import final_imports ''local'' import_line))))"

definition construct_import_dict :: "environment \<Rightarrow> override option \<Rightarrow> string list \<Rightarrow> error + grouped" where
  "construct_import_dict env override import_lines =
     group_lines env override import_lines Map.empty"

text \<open>
  The key under which the body of the loop of \<open>construct_import_dict\<close> files a statement,
  or the exception it raises.
\<close>

definition category_of :: "environment \<Rightarrow> override option \<Rightarrow> string \<Rightarrow> error + string" where
  "category_of env override import_line =
     (case get_module_name_from_import import_line of
        Inl e \<Rightarrow> Inl e
      | Inr mod_name \<Rightarrow>
          if mod_name = ''.'' then Inr ''local''
          else (case is_standard_module env override mod_name of
                  Inl e \<Rightarrow> Inl e
                | Inr True \<Rightarrow> Inr ''standard''
                | Inr False \<Rightarrow>
                    (case is_third_party_module env override mod_name of
                       Inl e \<Rightarrow> Inl e
                     | Inr True \<Rightarrow> Inr ''third_party''
                     | Inr False \<Rightarrow> Inr ''local'')))"

section \<open>The import orderer\<close>

text \<open>
  The sort key \<open>k.lower().split()[1]\<close>: \<open>None\<close> where the index is out of range and the
  interpreter raises \<open>IndexError\<close>.
\<close>

definition module_key :: "string \<Rightarrow> string option" where
  "module_key k =
     (case split_ws (py_lower k) of
        _ # second # _ \<Rightarrow> Some second
      | _ \<Rightarrow> None)"

text \<open>
  \<open>sorted(v, key=...)\<close>: the key of every item is computed, then the items are sorted
  stably and ascending. Iterating over a string yields its bytes as strings of length one.
\<close>

definition sorted_by_key :: "pyval \<Rightarrow> error + string list" where
  "sorted_by_key v =
     (let items = (case v of StrList xs \<Rightarrow> xs | Str s \<Rightarrow> map (\<lambda>c. [c]) s)
      in if \<exists>k \<in> set items. module_key k = None then Inl IndexError
         else Inr (sort_key module_key items))"

text \<open>
  The value that the first loop of \<open>get_ordered_imports\<close> binds to a key: the sorted
  items joined by newlines, or the empty string for a key that is absent.
\<close>

definition rebound_value :: "grouped \<Rightarrow> string \<Rightarrow> error + string" where
  "rebound_value grouped_imports key =
     (case grouped_imports key of
        Some v \<Rightarrow>
          (case sorted_by_key v of
             Inl e \<Rightarrow> Inl e
           | Inr xs \<Rightarrow> Inr (py_join [nl] xs))
      | None \<Rightarrow> Inr [])"

text \<open>The first loop of \<open>get_ordered_imports\<close>: every key is rebound to a string.\<close>

fun rebind_keys :: "string list \<Rightarrow> grouped \<Rightarrow> error + grouped" where
  "rebind_keys [] grouped_imports = Inr grouped_imports"
| "rebind_keys (key # keys) grouped_imports =
     (case rebound_value grouped_imports key of
        Inl e \<Rightarrow> Inl e
      | Inr s \<Rightarrow> rebind_keys keys (grouped_imports(key \<mapsto> Str s)))"

text \<open>
  The final join. \<open>join\<close> first runs the generator to its end, so a missing key raises
  \<open>KeyError\<close> before anything else; then an item that is not a string raises
  \<open>TypeError\<close>. After the first loop every key is bound to a string, and the result is
  the list of the values that differ from the empty string.
\<close>

fun nonempty_blocks :: "string list \<Rightarrow> grouped \<Rightarrow> error + string list" where
  "nonempty_blocks [] grouped_imports = Inr []"
| "nonempty_blocks (key # keys) grouped_imports =
     (case grouped_imports key of
        None \<Rightarrow> Inl KeyError
      | Some v \<Rightarrow>
          (case nonempty_blocks keys grouped_imports of
             Inl e \<Rightarrow> Inl e
           | Inr blocks \<Rightarrow>
               (case v of
                  StrList xs \<Rightarrow> Inl TypeError
                | Str s \<Rightarrow> Inr (if s \<noteq> [] then s # blocks else blocks))))"

definition category_keys :: "string list" where
  "category_keys = [''standard'', ''third_party'', ''local'']"

text \<open>
  \<open>get_ordered_imports\<close> returns the ordered text; the dictionary it was given is
  changed in place, so the model returns the dictionary as well.
\<close>

definition get_ordered_imports :: "grouped \<Rightarrow> error + string \<times> grouped" where
  "get_ordered_imports grouped_imports =
     (case rebind_keys category_keys grouped_imports of
        Inl e \<Rightarrow> Inl e
      | Inr rebound \<Rightarrow>
          (case nonempty_blocks category_keys rebound of
             Inl e \<Rightarrow> Inl e
           | Inr blocks \<Rightarrow> Inr (py_join [nl, nl] blocks, rebound)))"

section \<open>The diff reporter\<close>

text \<open>
  \<open>difflib.unified_diff\<close> yields no line when the two sequences of lines are equal and
  at least the two header lines when they differ; the text of the diff, which goes to the
  standard output, is not part of the model.
\<close>

definition verify_imports_order :: "string \<Rightarrow> string \<Rightarrow> nat" where
  "verify_imports_order actual expected =
     (let actual_lines = map (\<lambda>l. l @ [nl]) (split_on nl actual);
          expected_lines = map (\<lambda>l. l @ [nl]) (split_on nl expected)
      in if actual_lines = expected_lines then 0 else 1)"

section \<open>The command line\<close>

record clargs =
  cl_standard :: string
  cl_third_party :: string
  cl_local :: string
  cl_files :: "string list"

definition sanitize_cmd_line_opt :: "string \<Rightarrow> string list" where
  "sanitize_cmd_line_opt cmd_line_opt = map py_strip (split_on CHR '','' cmd_line_opt)"

text \<open>The dictionary \<open>override\<close> that the loop of \<open>main\<close> builds for every file.\<close>

definition main_override :: "clargs \<Rightarrow> override" where
  "main_override args =
     \<lparr>ov_standard = sanitize_cmd_line_opt (cl_standard args),
      ov_third_party = sanitize_cmd_line_opt (cl_third_party args),
      ov_local = sanitize_cmd_line_opt (cl_third_party args)\<rparr>"

text \<open>
  The body of the loop of \<open>main\<close> for a file that exists, on its contents: what is added
  to \<open>exit_status\<close>, or the exception that ends the run.
\<close>

definition check_file :: "environment \<Rightarrow> clargs \<Rightarrow> string \<Rightarrow> error + nat" where
  "check_file env args text =
     (let (imports_string, import_lines) = get_import_lines text;
          override = main_override args
      in case construct_import_dict env (Some override) import_lines of
           Inl e \<Rightarrow> Inl e
         | Inr import_dict \<Rightarrow>
             (case get_ordered_imports import_dict of
                Inl e \<Rightarrow> Inl e
              | Inr (ordered_imports, _) \<Rightarrow>
                  Inr (verify_imports_order imports_string ordered_imports)))"

text \<open>
  The loop of \<open>main\<close>. The file system maps a path to the contents of the regular file
  there; a path that \<open>sanity_check\<close> rejects adds one to \<open>exit_status\<close>.
\<close>

fun main_loop :: "environment \<Rightarrow> (string \<rightharpoonup> string) \<Rightarrow> clargs \<Rightarrow> string list \<Rightarrow> nat \<Rightarrow> error + nat" where
  "main_loop env fs args [] exit_status = Inr exit_status"
| "main_loop env fs args (py_file # files) exit_status =
     (case fs py_file of
        None \<Rightarrow> main_loop env fs args files (exit_status + 1)
      | Some text \<Rightarrow>
          (case check_file env args text of
             Inl e \<Rightarrow> Inl e
           | Inr n \<Rightarrow> main_loop env fs args files (exit_status + n)))"

text \<open>\<open>main\<close>: the argument of \<open>sys.exit\<close>, or the exception that ended the run.\<close>

definition main :: "environment \<Rightarrow> (string \<rightharpoonup> string) \<Rightarrow> clargs \<Rightarrow> error + bool" where
  "main env fs args =
     (case main_loop env fs args (cl_files args) 0 of
        Inl e \<Rightarrow> Inl e
      | Inr exit_status \<Rightarrow> Inr (exit_status > 0))"

text \<open>The grouper followed by the orderer, on a list of statements.\<close>

definition group_and_order :: "environment \<Rightarrow> override option \<Rightarrow> string list \<Rightarrow> error + string" where
  "group_and_order env override import_lines =
     (case construct_import_dict env override import_lines of
        Inl e \<Rightarrow> Inl e
      | Inr import_dict \<Rightarrow> map_sum id fst (get_ordered_imports import_dict))"

text \<open>
  The pipeline of the specification, \<open>order(group(extract(text)))\<close>: the canonical text
  of the imports of a file.
\<close>

definition canonical_imports :: "environment \<Rightarrow> override option \<Rightarrow> string \<Rightarrow> error + string" where
  "canonical_imports env override text =
     group_and_order env override (snd (get_import_lines text))"

section \<open>The interpreter with its state\<close>

text \<open>
  \<open>__import__\<close> reads and changes the state of the interpreter (the table of the modules
  loaded so far, the search path), so what loading a name gives can depend on what was
  loaded before. Here the interpreter is a function of the state and the name that
  returns the outcome and the next state; the classifier and the grouper pass the state
  from one call of \<open>load_module\<close> to the next, in the order of the source. The functions
  above, over an \<open>environment\<close>, are these functions for an interpreter whose outcomes do
  not depend on the state.
\<close>

type_synonym 's interpreter = "'s \<Rightarrow> string \<Rightarrow> load_outcome \<times> 's"

definition load_module_in :: "'s interpreter \<Rightarrow> string \<Rightarrow> 's \<Rightarrow> (error + string option) \<times> 's" where
  "load_module_in interp module_name s =
     (case interp s module_name of
        (Loaded module_repr, s') \<Rightarrow> (Inr (Some module_repr), s')
      | (ImportFails, s') \<Rightarrow> (Inr None, s')
      | (OtherFails, s') \<Rightarrow> (Inl LoadFailure, s'))"

definition is_standard_module_in ::
  "'s interpreter \<Rightarrow> override option \<Rightarrow> string \<Rightarrow> 's \<Rightarrow> (error + bool) \<times> 's" where
  "is_standard_module_in interp override_opt module s =
     (let override = (case override_opt of None \<Rightarrow> EMPTY_OVERRIDE | Some ov \<Rightarrow> ov) in
      if module \<in> set (ov_standard override) then (Inr True, s)
      else if module \<in> set (ov_third_party override) \<or> module \<in> set (ov_local override)
      then (Inr False, s)
      else (case load_module_in interp module s of
              (Inl e, s') \<Rightarrow> (Inl e, s')
            | (Inr None, s') \<Rightarrow> (Inr False, s')
            | (Inr (Some module_repr), s') \<Rightarrow>
                (Inr (\<not> contains module_repr ''site-packages'' \<and>
                      (\<exists>path \<in> set [''usr/lib/python'', ''usr/lib64/python'', ''built-in''].
                         contains module_repr path)), s')))"

definition is_third_party_module_in ::
  "'s interpreter \<Rightarrow> override option \<Rightarrow> string \<Rightarrow> 's \<Rightarrow> (error + bool) \<times> 's" where
  "is_third_party_module_in interp override_opt module s =
     (let override = (case override_opt of None \<Rightarrow> EMPTY_OVERRIDE | Some ov \<Rightarrow> ov) in
      if module \<in> set (ov_third_party override) then (Inr True, s)
      else if module \<in> set (ov_standard override) \<or> module \<in> set (ov_local override)
      then (Inr False, s)
      else (case load_module_in interp module s of
              (Inl e, s') \<Rightarrow> (Inl e, s')
            | (Inr None, s') \<Rightarrow> (Inr False, s')
            | (Inr (Some module_repr), s') \<Rightarrow>
                (Inr (contains module_repr ''site-packages'' \<and>
                      (\<exists>path \<in> set [''usr/lib/python'', ''usr/lib64/python''].
                         contains module_repr path)), s')))"

text \<open>
  The loop of \<open>construct_import_dict\<close>: a statement that is neither relative nor standard
  is probed a second time, by \<open>is_third_party_module\<close>, in the state the first probe left.
\<close>

fun group_lines_in ::
  "'s interpreter \<Rightarrow> override option \<Rightarrow> string list \<Rightarrow> grouped \<Rightarrow> 's \<Rightarrow> (error + grouped) \<times> 's" where
  "group_lines_in interp override [] final_imports s = (Inr final_imports, s)"
| "group_lines_in interp override (import_line # rest) final_imports s =
     (case get_module_name_from_import import_line of
        Inl e \<Rightarrow> (Inl e, s)
      | Inr mod_name \<Rightarrow>
          if mod_name = ''.''
          then group_lines_in interp override rest
                 (add_import final_imports ''local'' import_line) s
          else (case is_standard_module_in interp override mod_name s of
                  (Inl e, s1) \<Rightarrow> (Inl e, s1)
                | (Inr True, s1) \<Rightarrow>
                    group_lines_in interp override rest
                      (add_import final_imports ''standard'' import_line) s1
                | (Inr False, s1) \<Rightarrow>
                    (case is_third_party_module_in interp override mod_name s1 of
                       (Inl e, s2) \<Rightarrow> (Inl e, s2)
                     | (Inr True, s2) \<Rightarrow>
                         group_lines_in interp override rest
                           (add_import final_imports ''third_party'' import_line) s2
                     | (Inr False, s2) \<Rightarrow>
                         group_lines_in interp override rest
                           (add_import final_imports ''local'' import_line) s2)))"

definition construct_import_dict_in ::
  "'s interpreter \<Rightarrow> override option \<Rightarrow> string list \<Rightarrow> 's \<Rightarrow> (error + grouped) \<times> 's" where
  "construct_import_dict_in interp override import_lines s =
     group_lines_in interp override import_lines Map.empty s"

text \<open>The pipeline \<open>order(group(extract(text)))\<close> run in a state of the interpreter.\<close>

definition canonical_imports_in ::
  "'s interpreter \<Rightarrow> override option \<Rightarrow> string \<Rightarrow> 's \<Rightarrow> (error + string) \<times> 's" where
  "canonical_imports_in interp override text s =
     (case construct_import_dict_in interp override (snd (get_import_lines text)) s of
        (Inl e, s') \<Rightarrow> (Inl e, s')
      | (Inr import_dict, s') \<Rightarrow> (map_sum id fst (get_ordered_imports import_dict), s'))"

text \<open>The body of the loop of \<open>main\<close> run in a state of the interpreter.\<close>

definition check_file_in :: "'s interpreter \<Rightarrow> clargs \<Rightarrow> string \<Rightarrow> 's \<Rightarrow> (error + nat) \<times> 's" where
  "check_file_in interp args text s =
     (let (imports_string, import_lines) = get_import_lines text;
          override = main_override args
      in case construct_import_dict_in interp (Some override) import_lines s of
           (Inl e, s') \<Rightarrow> (Inl e, s')
         | (Inr import_dict, s') \<Rightarrow>
             (case get_ordered_imports import_dict of
                Inl e \<Rightarrow> (Inl e, s')
              | Inr (ordered_imports, _) \<Rightarrow>
                  (Inr (verify_imports_order imports_string ordered_imports), s')))"

text \<open>
  An interpreter with two modules that import each other, installed under the standard
  library path: \<open>a.py\<close> is \<open>import b; X = 1\<close> and \<open>b.py\<close> is \<open>from a import X\<close>. The
  state is the list of the loaded modules. Loading \<open>a\<close> first fails: \<open>b\<close> asks for \<open>X\<close>
  before \<open>a\<close> has defined it, the \<open>ImportError\<close> leaves neither module loaded. Loading
  \<open>b\<close> succeeds and loads \<open>a\<close> on the way, after which \<open>a\<close> is found loaded.
\<close>

definition circular_imports :: "string list interpreter" where
  "circular_imports loaded name =
     (if name = ''b''
      then (Loaded ''<module b from /usr/lib/python2.7/b.pyc>'', ''a'' # ''b'' # loaded)
      else if name = ''a'' \<and> ''a'' \<in> set loaded
      then (Loaded ''<module a from /usr/lib/python2.7/a.pyc>'', loaded)
      else (ImportFails, loaded))"

section \<open>Predicates of the specification\<close>

text \<open>
  The import-line grammar \<open>^(from|import) <dotted identifier>\<close> as a test on a string: a
  keyword, one space, and at least one byte of the class of module names.
\<close>

definition matches_import_grammar :: "string \<Rightarrow> bool" where
  "matches_import_grammar s \<longleftrightarrow>
     (\<exists>kw \<in> set [''from'', ''import''].
        startswith s (kw @ '' '') \<and>
        takeWhile is_module_char (drop (length (kw @ '' '')) s) \<noteq> [])"

text \<open>
  An import statement of the data model: a line that the extractor recognizes, trimmed,
  and without a newline.
\<close>

definition is_statement :: "string \<Rightarrow> bool" where
  "is_statement s \<longleftrightarrow> is_import_line s \<and> py_strip s = s \<and> nl \<notin> set s"

text \<open>
  The import block in terms of the lines of the file: what a line contributes (an import
  line its trimmed text, a line that is only a newline an empty entry, any other line
  nothing), from the first import line on, without the empty entries after the last
  import line.
\<close>

definition block_entries :: "string \<Rightarrow> string list" where
  "block_entries line =
     (if is_import_line line then [py_strip line]
      else if line = [nl] then [[]]
      else [])"

definition import_block :: "string list \<Rightarrow> string list" where
  "import_block lines =
     rev (dropWhile (\<lambda>x. x = [])
       (rev (concat (map block_entries (dropWhile (\<lambda>l. \<not> is_import_line l) lines)))))"

text \<open>
  The extractor in the words of the specification, for comparison with
  \<open>get_import_lines\<close>: the contiguous set of import statements, that is the lines from the
  first import line up to the first line that is neither an import line nor blank.
\<close>

definition contiguous_block :: "string list \<Rightarrow> string list" where
  "contiguous_block lines =
     takeWhile (\<lambda>l. is_import_line l \<or> l = [nl]) (dropWhile (\<lambda>l. \<not> is_import_line l) lines)"

definition get_import_lines_contiguous :: "string \<Rightarrow> string \<times> string list" where
  "get_import_lines_contiguous text =
     (let import_list = import_block (contiguous_block (readlines text))
      in (py_join [nl] import_list, filter (\<lambda>i. i \<noteq> []) import_list))"

text \<open>No two consecutive lines of a list of lines are both blank.\<close>

fun no_double_blank :: "string list \<Rightarrow> bool" where
  "no_double_blank (x # y # zs) \<longleftrightarrow> \<not> (x = [] \<and> y = []) \<and> no_double_blank (y # zs)"
| "no_double_blank _ \<longleftrightarrow> True"

section \<open>The command-line overrides\<close>

lemma main_loop_local_irrelevant:
  "main_loop env fs (args\<lparr>cl_local := v\<rparr>) files n = main_loop env fs args files n"
  by (induction files arbitrary: n)
     (simp_all add: check_file_def main_override_def split: option.splits sum.splits)

text \<open>
  Claim C1. The value of the option \<open>--local\<close> is never read: the list \<open>local\<close> of the
  override dictionary handed to the grouper is the sanitized value of \<open>--third_party\<close>,
  and neither the dictionary, nor the result for a file, nor the result of the whole run
  changes when the value of \<open>--local\<close> is replaced by any other.
\<close>

theorem local_option_never_read:
  "ov_local (main_override args) = sanitize_cmd_line_opt (cl_third_party args)
   \<and> main_override (args\<lparr>cl_local := v\<rparr>) = main_override args
   \<and> check_file env (args\<lparr>cl_local := v\<rparr>) text = check_file env args text
   \<and> main env fs (args\<lparr>cl_local := v\<rparr>) = main env fs args"
  by (simp add: main_def main_loop_local_irrelevant check_file_def main_override_def)

theorem local_option_never_read_witness:
  "ov_local (main_override
     \<lparr>cl_standard = [], cl_third_party = ''cv2, numpy'', cl_local = ''mine'', cl_files = []\<rparr>)
     = [''cv2'', ''numpy'']
   \<and> sanitize_cmd_line_opt ''mine'' = [''mine'']"
  using local_option_never_read
    [of "\<lparr>cl_standard = [], cl_third_party = ''cv2, numpy'', cl_local = ''mine'', cl_files = []\<rparr>"]
  by (simp add: sanitize_cmd_line_opt_def py_strip_def is_space_def)

section \<open>The classifier and the grouper\<close>

text \<open>
  Claim C3. A module name in the list \<open>standard\<close> of the overrides is classified as
  standard by \<open>is_standard_module\<close>, whatever loading the module would do and whatever
  the loaded module looks like.
\<close>

theorem standard_override_wins:
  "module \<in> set (ov_standard ov) \<Longrightarrow> is_standard_module env (Some ov) module = Inr True"
  by (simp add: is_standard_module_def)

theorem standard_override_wins_witness:
  "''os'' \<in> set (ov_standard \<lparr>ov_standard = [''os''], ov_third_party = [], ov_local = []\<rparr>)
   \<and> load_module (\<lambda>_. OtherFails) ''os'' = Inl LoadFailure
   \<and> is_standard_module (\<lambda>_. OtherFails)
        (Some \<lparr>ov_standard = [''os''], ov_third_party = [], ov_local = []\<rparr>) ''os'' = Inr True"
  using standard_override_wins
    [of "''os''" "\<lparr>ov_standard = [''os''], ov_third_party = [], ov_local = []\<rparr>" "\<lambda>_. OtherFails"]
  by (simp add: load_module_def)

text \<open>
  Claim C7. A statement whose module name is the sentinel \<open>.\<close> goes to the category
  \<open>local\<close> for every environment and every override configuration, so neither an answer
  of the classifier nor an exception it would raise has any influence;
  \<open>from . import function\<close> is such a statement.
\<close>

theorem relative_import_local:
  "(get_module_name_from_import line = Inr ''.'' \<longrightarrow>
      group_lines env override (line # rest) final_imports =
      group_lines env override rest (add_import final_imports ''local'' line))
   \<and> get_module_name_from_import ''from . import function'' = Inr ''.''
   \<and> construct_import_dict env override [''from . import function''] =
       Inr [''local'' \<mapsto> StrList [''from . import function'']]"
proof -
  have m: "get_module_name_from_import ''from . import function'' = Inr ''.''"
    by code_simp
  show ?thesis
    by (simp add: m construct_import_dict_def add_import_def)
qed

theorem relative_import_local_witness:
  "get_module_name_from_import ''from . import function'' = Inr ''.''
   \<and> is_standard_module (\<lambda>_. OtherFails) None ''.'' = Inl LoadFailure
   \<and> is_standard_module (\<lambda>_. OtherFails)
        (Some \<lparr>ov_standard = [''.''], ov_third_party = [], ov_local = []\<rparr>) ''.'' = Inr True
   \<and> group_lines (\<lambda>_. OtherFails) None [''from . import function''] Map.empty =
       Inr [''local'' \<mapsto> StrList [''from . import function'']]
   \<and> group_lines (\<lambda>_. OtherFails)
        (Some \<lparr>ov_standard = [''.''], ov_third_party = [], ov_local = []\<rparr>)
        [''from . import function''] Map.empty =
       Inr [''local'' \<mapsto> StrList [''from . import function'']]"
  using relative_import_local [of "''from . import function''" "\<lambda>_. OtherFails" None "[]" Map.empty]
    relative_import_local [of "''from . import function''" "\<lambda>_. OtherFails"
       "Some \<lparr>ov_standard = [''.''], ov_third_party = [], ov_local = []\<rparr>" "[]" Map.empty]
  by (simp add: is_standard_module_def load_module_def EMPTY_OVERRIDE_def add_import_def)

section \<open>The orderer\<close>

text \<open>
  Claim C6. For the grouped input of the docstring of \<open>get_ordered_imports\<close> the orderer
  returns the three blocks in the fixed order, the third-party block sorted, with one
  blank line between blocks.
\<close>

theorem docstring_example_order:
  "map_sum id fst (get_ordered_imports
     [''standard'' \<mapsto> StrList [''import built_in''],
      ''third_party'' \<mapsto> StrList [''import z_third_party'', ''import a_third_party''],
      ''local'' \<mapsto> StrList [''import last'']])
   = Inr ''import built_in\<newline>\<newline>import a_third_party\<newline>import z_third_party\<newline>\<newline>import last''"
  by code_simp

section \<open>Statements that cannot be parsed\<close>

lemma matches_import_grammar_cases:
  "matches_import_grammar s \<longleftrightarrow>
     (startswith s ''from '' \<and> takeWhile is_module_char (drop 5 s) \<noteq> []) \<or>
     (startswith s ''import '' \<and> takeWhile is_module_char (drop 7 s) \<noteq> [])"
  by (simp add: matches_import_grammar_def eval_nat_numeral)

lemma grammar_split:
  assumes "startswith s p" and "n = length p"
    and "takeWhile is_module_char (drop n s) \<noteq> []"
  shows "\<exists>m rest. m \<noteq> [] \<and> list_all is_module_char m \<and> s = p @ m @ rest"
proof -
  let ?r = "drop n s"
  from assms(1,2) have "s = p @ ?r"
    unfolding startswith_def by (metis append_take_drop_id)
  then have "s = p @ takeWhile is_module_char ?r @ dropWhile is_module_char ?r"
    by simp
  moreover have "list_all is_module_char (takeWhile is_module_char ?r)"
    unfolding list_all_iff by (meson set_takeWhileD)
  ultimately show ?thesis
    using assms(3) by blast
qed

lemma matches_import_grammar_iff:
  "matches_import_grammar s \<longleftrightarrow>
     (\<exists>kw m rest. (kw = ''from'' \<or> kw = ''import'') \<and> m \<noteq> [] \<and> list_all is_module_char m
        \<and> s = kw @ '' '' @ m @ rest)"
proof
  assume "matches_import_grammar s"
  then consider
      "startswith s ''from ''" "takeWhile is_module_char (drop 5 s) \<noteq> []"
    | "startswith s ''import ''" "takeWhile is_module_char (drop 7 s) \<noteq> []"
    unfolding matches_import_grammar_cases by blast
  then show "\<exists>kw m rest. (kw = ''from'' \<or> kw = ''import'') \<and> m \<noteq> [] \<and> list_all is_module_char m
        \<and> s = kw @ '' '' @ m @ rest"
  proof cases
    case 1
    from grammar_split [OF 1(1) _ 1(2)]
    obtain m rest where "m \<noteq> []" "list_all is_module_char m" "s = ''from '' @ m @ rest"
      by auto
    then have "m \<noteq> [] \<and> list_all is_module_char m \<and> s = ''from'' @ '' '' @ m @ rest"
      by simp
    then show ?thesis by blast
  next
    case 2
    from grammar_split [OF 2(1) _ 2(2)]
    obtain m rest where "m \<noteq> []" "list_all is_module_char m" "s = ''import '' @ m @ rest"
      by auto
    then have "m \<noteq> [] \<and> list_all is_module_char m \<and> s = ''import'' @ '' '' @ m @ rest"
      by simp
    then show ?thesis by blast
  qed
next
  assume "\<exists>kw m rest. (kw = ''from'' \<or> kw = ''import'') \<and> m \<noteq> [] \<and> list_all is_module_char m
        \<and> s = kw @ '' '' @ m @ rest"
  then obtain kw m rest where kw: "kw = ''from'' \<or> kw = ''import''" and m: "m \<noteq> []"
    and a: "list_all is_module_char m" and s: "s = kw @ '' '' @ m @ rest" by blast
  from m a obtain c m' where "m = c # m'" "is_module_char c" by (cases m) auto
  with kw s show "matches_import_grammar s"
    by (auto simp: matches_import_grammar_cases startswith_def)
qed

lemma get_module_name_needs_grammar:
  "\<not> matches_import_grammar line \<Longrightarrow> get_module_name_from_import line = Inl ValueError"
  by (simp add: matches_import_grammar_cases get_module_name_from_import_def Let_def)

lemma group_lines_aborts:
  "line \<in> set import_lines \<Longrightarrow> get_module_name_from_import line = Inl e0 \<Longrightarrow>
     \<exists>e. group_lines env override import_lines final_imports = Inl e"
  by (induction import_lines arbitrary: final_imports)
     (auto split: sum.splits bool.splits)

lemma classifier_total:
  "env m \<noteq> OtherFails \<Longrightarrow> is_standard_module env override m \<noteq> Inl e"
  "env m \<noteq> OtherFails \<Longrightarrow> is_third_party_module env override m \<noteq> Inl e"
  by (auto simp: is_standard_module_def is_third_party_module_def load_module_def Let_def
           split: load_outcome.splits)

lemma get_module_name_error:
  "get_module_name_from_import line = Inl e \<Longrightarrow> e = ValueError"
  by (auto simp: get_module_name_from_import_def Let_def split: option.splits if_splits)

lemma group_lines_error_kind:
  "\<forall>m. env m \<noteq> OtherFails \<Longrightarrow> group_lines env override import_lines final_imports = Inl e \<Longrightarrow>
     e = ValueError"
proof (induction import_lines arbitrary: final_imports)
  case Nil
  then show ?case by simp
next
  case (Cons a ls)
  then show ?case
    by (auto split: sum.splits bool.splits if_splits dest: get_module_name_error
             simp: classifier_total)
qed

lemma main_loop_aborts:
  "py_file \<in> set files \<Longrightarrow> fs py_file = Some text \<Longrightarrow> check_file env args text = Inl e0 \<Longrightarrow>
     \<exists>e. main_loop env fs args files n = Inl e"
  by (induction files arbitrary: n) (auto split: option.splits sum.splits)

lemma check_file_aborts:
  "construct_import_dict env (Some (main_override args)) (snd (get_import_lines text)) = Inl e \<Longrightarrow>
     check_file env args text = Inl e"
  by (cases "get_import_lines text") (simp add: check_file_def)

text \<open>
  Claim C8. A statement that does not match the import-line grammar makes
  \<open>get_module_name_from_import\<close> raise \<open>ValueError\<close>; nothing catches it: the grouper
  fails on every list that holds such a statement (with \<open>ValueError\<close> when loading modules
  raises nothing of its own), the loop body of \<open>main\<close> fails on a file from which such a
  statement is extracted, and so does the whole run.
\<close>

theorem unparseable_statement_aborts:
  "\<not> matches_import_grammar line \<Longrightarrow>
     get_module_name_from_import line = Inl ValueError
     \<and> (line \<in> set import_lines \<longrightarrow>
          (\<exists>e. construct_import_dict env override import_lines = Inl e))
     \<and> (line \<in> set import_lines \<and> (\<forall>m. env m \<noteq> OtherFails) \<longrightarrow>
          construct_import_dict env override import_lines = Inl ValueError)
     \<and> (line \<in> set (snd (get_import_lines text)) \<longrightarrow>
          (\<exists>e. check_file env args text = Inl e))
     \<and> (line \<in> set (snd (get_import_lines text)) \<and> fs py_file = Some text
          \<and> py_file \<in> set (cl_files args) \<longrightarrow>
          (\<exists>e. main env fs args = Inl e))"
proof -
  assume ng: "\<not> matches_import_grammar line"
  have v: "get_module_name_from_import line = Inl ValueError"
    using ng by (rule get_module_name_needs_grammar)
  have a: "\<exists>e. group_lines env' ov ls fi = Inl e" if "line \<in> set ls" for env' ov ls fi
    using that v by (rule group_lines_aborts)
  have c: "\<exists>e. check_file env args text = Inl e" if "line \<in> set (snd (get_import_lines text))"
    using a [OF that] check_file_aborts unfolding construct_import_dict_def by blast
  have m: "\<exists>e. main env fs args = Inl e"
    if "line \<in> set (snd (get_import_lines text))" "fs py_file = Some text"
       "py_file \<in> set (cl_files args)"
  proof -
    from c that(1) obtain e0 where "check_file env args text = Inl e0" by blast
    with that(2,3) obtain e where "main_loop env fs args (cl_files args) 0 = Inl e"
      using main_loop_aborts [of py_file "cl_files args" fs "text" env args e0 0] by blast
    then show ?thesis by (simp add: main_def)
  qed
  have k: "construct_import_dict env override import_lines = Inl ValueError"
    if "line \<in> set import_lines" "\<forall>m. env m \<noteq> OtherFails"
    using a [OF that(1)] group_lines_error_kind [OF that(2)]
    unfolding construct_import_dict_def by blast
  show ?thesis
    using v a c m k unfolding construct_import_dict_def by blast
qed

theorem unparseable_statement_aborts_witness:
  "\<not> matches_import_grammar ''import''
   \<and> get_module_name_from_import ''import'' = Inl ValueError
   \<and> construct_import_dict (\<lambda>_. ImportFails) None [''import os'', ''import'', ''import sys'']
       = Inl ValueError
   \<and> snd (get_import_lines ''import os\<newline>import\<newline>'') = [''import os'', ''import'']
   \<and> (\<exists>e. main (\<lambda>_. ImportFails) [''a.py'' \<mapsto> ''import os\<newline>import\<newline>'']
          \<lparr>cl_standard = [], cl_third_party = [], cl_local = [], cl_files = [''a.py'']\<rparr> = Inl e)"
proof -
  have g: "\<not> matches_import_grammar ''import''"
    by (simp add: matches_import_grammar_cases startswith_def)
  have s: "snd (get_import_lines ''import os\<newline>import\<newline>'') = [''import os'', ''import'']"
    by code_simp
  show ?thesis
    using g s unparseable_statement_aborts [OF g, of "[''import os'', ''import'', ''import sys'']"
      "\<lambda>_. ImportFails" None "''import os\<newline>import\<newline>''"
      "\<lparr>cl_standard = [], cl_third_party = [], cl_local = [], cl_files = [''a.py'']\<rparr>"
      "[''a.py'' \<mapsto> ''import os\<newline>import\<newline>'']" "''a.py''"]
    by simp
qed

section \<open>The orderer changes its argument\<close>

text \<open>
  Claim C10. When \<open>get_ordered_imports\<close> returns, each of the three category keys of
  the dictionary it was given is bound to a string: the sorted statements joined by
  newlines, or the empty string for a key that was absent. No list is left under these
  keys; the other keys are untouched.
\<close>

theorem orderer_rebinds_keys:
  "get_ordered_imports grouped_imports = Inr (text, rebound) \<Longrightarrow>
     (\<forall>key \<in> set category_keys.
        rebound key =
          (case grouped_imports key of
             None \<Rightarrow> Some (Str [])
           | Some v \<Rightarrow> map_option (\<lambda>xs. Str (py_join [nl] xs))
                        (case sorted_by_key v of Inl e \<Rightarrow> None | Inr xs \<Rightarrow> Some xs))
        \<and> (\<exists>s. rebound key = Some (Str s)))
     \<and> (\<forall>key. key \<notin> set category_keys \<longrightarrow> rebound key = grouped_imports key)"
  by (auto simp: get_ordered_imports_def category_keys_def rebound_value_def
           split: sum.splits option.splits)

theorem orderer_rebinds_keys_witness:
  "get_ordered_imports [''standard'' \<mapsto> StrList [''import os'']] =
     Inr (''import os'',
          [''standard'' \<mapsto> StrList [''import os''], ''standard'' \<mapsto> Str ''import os'',
           ''third_party'' \<mapsto> Str [], ''local'' \<mapsto> Str []])
   \<and> (\<exists>s. [''standard'' \<mapsto> StrList [''import os''], ''standard'' \<mapsto> Str ''import os'',
            ''third_party'' \<mapsto> Str [], ''local'' \<mapsto> Str []] ''third_party'' = Some (Str s))"
proof -
  have k: "module_key ''import os'' = Some ''os''"
    by code_simp
  have h: "get_ordered_imports [''standard'' \<mapsto> StrList [''import os'']] =
     Inr (''import os'',
          [''standard'' \<mapsto> StrList [''import os''], ''standard'' \<mapsto> Str ''import os'',
           ''third_party'' \<mapsto> Str [], ''local'' \<mapsto> Str []])"
    by (simp add: get_ordered_imports_def category_keys_def rebound_value_def
          sorted_by_key_def k)
  show ?thesis
    using h orderer_rebinds_keys [OF h] by (simp add: category_keys_def)
qed

section \<open>The extractor\<close>

subsection \<open>Trimming an import line\<close>

lemma startswith_append: "startswith s p \<longleftrightarrow> (\<exists>r. s = p @ r)"
proof
  assume "startswith s p"
  then have "s = p @ drop (length p) s"
    unfolding startswith_def using append_take_drop_id [of "length p" s] by simp
  then show "\<exists>r. s = p @ r" ..
next
  assume "\<exists>r. s = p @ r"
  then show "startswith s p" unfolding startswith_def by auto
qed

lemma in_butlast: "x \<in> set u \<Longrightarrow> x \<noteq> last u \<Longrightarrow> x \<in> set (butlast u)"
  by (cases u rule: rev_cases) auto

lemma strip_right_keep:
  assumes "p \<noteq> []" and "\<not> is_space (last p)"
  shows "rev (dropWhile is_space (rev (p @ r))) = p @ rev (dropWhile is_space (rev r))"
proof -
  have "dropWhile is_space (rev p) = rev p"
    using assms by (cases "rev p") (auto simp: last_rev [symmetric] simp del: last_rev)
  then show ?thesis
    by (simp add: dropWhile_append)
qed

lemma strip_right_prefix:
  "r = rev (dropWhile P (rev r)) @ rev (takeWhile P (rev r))"
proof -
  have "rev r = takeWhile P (rev r) @ dropWhile P (rev r)" by simp
  then have "rev (rev r) = rev (takeWhile P (rev r) @ dropWhile P (rev r))" by simp
  then show ?thesis by (simp only: rev_rev_ident rev_append)
qed

lemma py_strip_keep:
  assumes "p \<noteq> []" and "\<not> is_space (hd p)" and "\<not> is_space (last p)"
  shows "py_strip (p @ r) = p @ rev (dropWhile is_space (rev r))"
proof -
  have "dropWhile is_space (p @ r) = p @ r"
    using assms(1,2) by (cases p) auto
  then show ?thesis
    unfolding py_strip_def by (simp only: strip_right_keep [OF assms(1,3)])
qed

lemma py_strip_last:
  "py_strip s \<noteq> [] \<Longrightarrow> \<not> is_space (last (py_strip s))"
  unfolding py_strip_def
  using hd_dropWhile [of is_space "rev (dropWhile is_space s)"]
  by (simp add: last_rev)

lemma py_strip_sublist: "\<exists>a b. s = a @ py_strip s @ b"
proof -
  let ?t = "dropWhile is_space s"
  have "s = takeWhile is_space s @ ?t" by simp
  moreover have "?t = py_strip s @ rev (takeWhile is_space (rev ?t))"
    unfolding py_strip_def by (rule strip_right_prefix)
  ultimately have "s = takeWhile is_space s @ py_strip s @ rev (takeWhile is_space (rev ?t))"
    by simp
  then show ?thesis by blast
qed

lemma import_line_strip:
  assumes "is_import_line l"
  shows "is_import_line (py_strip l)" and "py_strip (py_strip l) = py_strip l"
    and "py_strip l \<noteq> []"
proof -
  from assms obtain p r where l: "l = p @ r" and p: "p = ''import'' \<or> p = ''from''"
    unfolding is_import_line_def startswith_append by blast
  from p have pp: "p \<noteq> []" "\<not> is_space (hd p)" "\<not> is_space (last p)"
    by (auto simp: is_space_def)
  let ?r = "rev (dropWhile is_space (rev r))"
  have s: "py_strip l = p @ ?r"
    unfolding l by (rule py_strip_keep [OF pp])
  show "py_strip l \<noteq> []" using s pp by simp
  show "py_strip (py_strip l) = py_strip l"
    unfolding s by (simp add: py_strip_keep [OF pp])
  have r: "r = ?r @ rev (takeWhile is_space (rev r))"
    by (rule strip_right_prefix)
  have bk: "startswith l q" if "startswith (py_strip l) q" for q
  proof -
    from that obtain t where "p @ ?r = q @ t" unfolding s startswith_append by blast
    then have "(p @ ?r) @ rev (takeWhile is_space (rev r)) = (q @ t) @ rev (takeWhile is_space (rev r))"
      by simp
    then have "l = q @ t @ rev (takeWhile is_space (rev r))"
      unfolding l using r by simp
    then show ?thesis unfolding startswith_append by blast
  qed
  have keep: "startswith (py_strip l) p"
    unfolding s startswith_append by blast
  show "is_import_line (py_strip l)"
  proof (cases "startswith l ''import''")
    case True
    then obtain r' where l': "l = ''import'' @ r'" unfolding startswith_append by blast
    have "py_strip l = ''import'' @ rev (dropWhile is_space (rev r'))"
      unfolding l' by (rule py_strip_keep) (auto simp: is_space_def)
    then show ?thesis unfolding is_import_line_def startswith_append by blast
  next
    case False
    with assms have f: "startswith l ''from''" "\<not> startswith l ''from __future__''"
      unfolding is_import_line_def by auto
    from f(1) obtain r' where l': "l = ''from'' @ r'" unfolding startswith_append by blast
    have "py_strip l = ''from'' @ rev (dropWhile is_space (rev r'))"
      unfolding l' by (rule py_strip_keep) (auto simp: is_space_def)
    then have "startswith (py_strip l) ''from''" unfolding startswith_append by blast
    moreover have "\<not> startswith (py_strip l) ''from __future__''"
      using bk f(2) by blast
    ultimately show ?thesis unfolding is_import_line_def by blast
  qed
qed

lemma readlines_line:
  "l \<in> set (readlines text) \<Longrightarrow> l \<noteq> [] \<and> nl \<notin> set (butlast l)"
proof (induction "text" arbitrary: l)
  case Nil
  then show ?case by simp
next
  case (Cons c cs)
  then show ?case
    by (cases "readlines cs") (auto split: if_splits)
qed

lemma py_strip_no_nl:
  assumes "l \<noteq> []" and "nl \<notin> set (butlast l)"
  shows "nl \<notin> set (py_strip l)"
proof
  assume n: "nl \<in> set (py_strip l)"
  then have ne: "py_strip l \<noteq> []" by auto
  have "is_space nl" by (simp add: is_space_def nl_def)
  with py_strip_last [OF ne] have "last (py_strip l) \<noteq> nl" by auto
  with n have b: "nl \<in> set (butlast (py_strip l))"
    by (metis in_butlast)
  obtain a c where d: "l = a @ py_strip l @ c" using py_strip_sublist by blast
  from ne obtain ys y where u: "py_strip l = ys @ [y]" by (cases "py_strip l" rule: rev_cases) auto
  have "l = (a @ ys) @ (y # c)" using d unfolding u by simp
  then have "butlast l = (a @ ys) @ butlast (y # c)"
    by (simp only: butlast_append) simp
  with b u assms(2) show False by auto
qed

lemma extracted_statement:
  "is_import_line l \<Longrightarrow> l \<in> set (readlines text) \<Longrightarrow> is_statement (py_strip l)"
  unfolding is_statement_def
  using import_line_strip readlines_line py_strip_no_nl by blast

subsection \<open>The loop over the lines\<close>

lemma scan_skip:
  "scan_lines ls ([], []) =
     (case dropWhile (\<lambda>l. \<not> is_import_line l) ls of
        [] \<Rightarrow> ([], [])
      | l # rest \<Rightarrow> scan_lines rest ([py_strip l], []))"
  by (induction ls) simp_all

lemma scan_flat:
  "il \<noteq> [] \<Longrightarrow>
     fst (scan_lines ls (il, sl)) @ snd (scan_lines ls (il, sl)) =
     il @ sl @ concat (map block_entries ls)"
  by (induction ls arbitrary: il sl) (simp_all add: block_entries_def)

lemma scan_sub_blank:
  "set sl \<subseteq> {[]} \<Longrightarrow> set (snd (scan_lines ls (il, sl))) \<subseteq> {[]}"
  by (induction ls arbitrary: il sl) simp_all

lemma scan_fst_last:
  "il \<noteq> [] \<Longrightarrow> last il \<noteq> [] \<Longrightarrow>
     fst (scan_lines ls (il, sl)) \<noteq> [] \<and> last (fst (scan_lines ls (il, sl))) \<noteq> []"
  by (induction ls arbitrary: il sl) (simp_all add: import_line_strip(3))

lemma drop_trailing_blanks:
  assumes "F \<noteq> []" and "last F \<noteq> []" and "set S \<subseteq> {[]}"
  shows "rev (dropWhile (\<lambda>x. x = []) (rev (F @ S))) = F"
proof -
  have "dropWhile (\<lambda>x. x = []) (rev F) = rev F"
    using assms(1,2) by (cases F rule: rev_cases) auto
  moreover have "\<forall>x \<in> set (rev S). x = []"
    using assms(3) by auto
  ultimately show ?thesis
    by (simp add: dropWhile_append)
qed

lemma scan_block:
  assumes "il \<noteq> []" and "last il \<noteq> []" and "set sl \<subseteq> {[]}"
  shows "fst (scan_lines ls (il, sl)) =
     rev (dropWhile (\<lambda>x. x = []) (rev (il @ sl @ concat (map block_entries ls))))"
proof -
  let ?F = "fst (scan_lines ls (il, sl))" and ?S = "snd (scan_lines ls (il, sl))"
  have "rev (dropWhile (\<lambda>x. x = []) (rev (?F @ ?S))) = ?F"
    using scan_fst_last [OF assms(1,2)] scan_sub_blank [OF assms(3)]
    by (intro drop_trailing_blanks) auto
  then show ?thesis
    by (simp only: scan_flat [OF assms(1)])
qed

lemma scan_is_import_block:
  "fst (scan_lines ls ([], [])) = import_block ls"
proof (cases "dropWhile (\<lambda>l. \<not> is_import_line l) ls")
  case Nil
  show ?thesis unfolding scan_skip import_block_def Nil by simp
next
  case (Cons l rest)
  then have "is_import_line l"
    using hd_dropWhile [of "\<lambda>l. \<not> is_import_line l" ls] by auto
  then have e: "block_entries l = [py_strip l]" and n: "py_strip l \<noteq> []"
    by (simp_all add: block_entries_def import_line_strip(3))
  have "fst (scan_lines rest ([py_strip l], [])) =
     rev (dropWhile (\<lambda>x. x = []) (rev ([py_strip l] @ [] @ concat (map block_entries rest))))"
    by (rule scan_block) (use n in auto)
  then show ?thesis
    unfolding scan_skip import_block_def Cons by (simp add: e)
qed

lemma filter_drop_trailing:
  "filter P (rev (dropWhile (\<lambda>x. \<not> P x) (rev xs))) = filter P xs"
proof -
  have "filter P (dropWhile (\<lambda>x. \<not> P x) ys) = filter P ys" for ys
    by (induction ys) auto
  then show ?thesis
    by (metis rev_filter rev_rev_ident)
qed

lemma filter_block_entries:
  "filter (\<lambda>i. i \<noteq> []) (concat (map block_entries ls)) = map py_strip (filter is_import_line ls)"
  by (induction ls) (auto simp: block_entries_def import_line_strip(3))

lemma filter_after_skip:
  "filter P (dropWhile (\<lambda>x. \<not> P x) xs) = filter P xs"
  by (induction xs) auto

lemma statements_of_block:
  "filter (\<lambda>i. i \<noteq> []) (import_block ls) = map py_strip (filter is_import_line ls)"
proof -
  let ?d = "dropWhile (\<lambda>l. \<not> is_import_line l) ls"
  have "filter (\<lambda>i. i \<noteq> []) (import_block ls) =
        filter (\<lambda>i. i \<noteq> []) (concat (map block_entries ?d))"
    unfolding import_block_def using filter_drop_trailing [of "\<lambda>i. i \<noteq> []"] by simp
  also have "\<dots> = map py_strip (filter is_import_line ?d)"
    by (rule filter_block_entries)
  also have "\<dots> = map py_strip (filter is_import_line ls)"
    by (simp only: filter_after_skip)
  finally show ?thesis .
qed

lemma scan_extends:
  "\<exists>t. fst (scan_lines rest (il, sl)) = il @ t"
proof (induction rest arbitrary: il sl)
  case Nil
  show ?case by simp
next
  case (Cons a rest)
  show ?case
  proof (cases "is_import_line a")
    case True
    from Cons [of "il @ sl @ [py_strip a]" "[]"] obtain t
      where "fst (scan_lines rest (il @ sl @ [py_strip a], [])) = (il @ sl @ [py_strip a]) @ t"
      by blast
    then show ?thesis using True by simp
  next
    case False
    then show ?thesis using Cons [of il "sl @ [[]]"] Cons [of il sl] by auto
  qed
qed

lemma import_block_ends:
  "import_block ls \<noteq> [] \<Longrightarrow> hd (import_block ls) \<noteq> [] \<and> last (import_block ls) \<noteq> []"
proof -
  assume ne: "import_block ls \<noteq> []"
  let ?d = "dropWhile (\<lambda>l. \<not> is_import_line l) ls"
  have l: "last (import_block ls) \<noteq> []"
    using ne hd_dropWhile [of "\<lambda>x. x = []" "rev (concat (map block_entries ?d))"]
    unfolding import_block_def by (simp add: last_rev)
  obtain l rest where d: "?d = l # rest"
    using ne unfolding import_block_def by (cases ?d) auto
  then have "is_import_line l"
    using hd_dropWhile [of "\<lambda>l. \<not> is_import_line l" ls] by auto
  then have e: "block_entries l = [py_strip l]" and n: "py_strip l \<noteq> []"
    by (simp_all add: block_entries_def import_line_strip(3))
  have "import_block ls = fst (scan_lines rest ([py_strip l], []))"
    using scan_is_import_block [of ls] unfolding scan_skip d by simp
  then obtain t where "import_block ls = py_strip l # t"
    using scan_extends [of rest "[py_strip l]" "[]"] by auto
  with n l show ?thesis by simp
qed

lemma get_import_lines_block:
  "get_import_lines text =
     (py_join [nl] (import_block (readlines text)),
      map py_strip (filter is_import_line (readlines text)))"
  by (simp add: get_import_lines_def Let_def scan_is_import_block statements_of_block)

text \<open>
  Claim C4, as the specification states it, fails: the extractor does not stop at the first
  line that is neither an import line nor blank. In the file below an assignment stands
  between two import lines; the second import line and both blank lines reach the result,
  while the contiguous block ends after \<open>import os\<close>.
\<close>

theorem extractor_not_contiguous_counterexample:
  "get_import_lines ''import os\<newline>\<newline>x = 1\<newline>\<newline>import sys\<newline>'' =
     (''import os\<newline>\<newline>\<newline>import sys'', [''import os'', ''import sys''])
   \<and> get_import_lines_contiguous ''import os\<newline>\<newline>x = 1\<newline>\<newline>import sys\<newline>'' =
     (''import os'', [''import os''])
   \<and> get_import_lines ''import os\<newline>\<newline>x = 1\<newline>\<newline>import sys\<newline>'' \<noteq>
     get_import_lines_contiguous ''import os\<newline>\<newline>x = 1\<newline>\<newline>import sys\<newline>''"
  by code_simp

text \<open>
  Claim C4, amended. The statement list holds every line of the file that starts with
  \<open>import\<close>, or with \<open>from\<close> but not with \<open>from __future__\<close>, trimmed and in the order
  of the file, wherever the line stands. The reconstructed block holds these statements
  and one empty entry for every line that is only a newline and stands between two of
  them, whatever else stands between them; no other line contributes, and the block
  neither starts nor ends with an empty entry.
\<close>

theorem extractor_collects_import_lines:
  "snd (get_import_lines text) = map py_strip (filter is_import_line (readlines text))
   \<and> fst (get_import_lines text) = py_join [nl] (import_block (readlines text))
   \<and> filter (\<lambda>i. i \<noteq> []) (import_block (readlines text)) = snd (get_import_lines text)
   \<and> (import_block (readlines text) \<noteq> [] \<longrightarrow>
        hd (import_block (readlines text)) \<noteq> [] \<and> last (import_block (readlines text)) \<noteq> [])"
  using import_block_ends [of "readlines text"]
  by (simp add: get_import_lines_block statements_of_block)

theorem extractor_collects_import_lines_witness:
  "snd (get_import_lines ''\<newline>import os\<newline>\<newline>x = 1\<newline>\<newline>import sys\<newline>\<newline>'') =
     [''import os'', ''import sys'']
   \<and> fst (get_import_lines ''\<newline>import os\<newline>\<newline>x = 1\<newline>\<newline>import sys\<newline>\<newline>'') =
     ''import os\<newline>\<newline>\<newline>import sys''
   \<and> import_block (readlines ''\<newline>import os\<newline>\<newline>x = 1\<newline>\<newline>import sys\<newline>\<newline>'') =
     [''import os'', [], [], ''import sys'']"
proof -
  have b: "import_block (readlines ''\<newline>import os\<newline>\<newline>x = 1\<newline>\<newline>import sys\<newline>\<newline>'') =
     [''import os'', [], [], ''import sys'']"
    by code_simp
  show ?thesis
    using extractor_collects_import_lines
      [of "''\<newline>import os\<newline>\<newline>x = 1\<newline>\<newline>import sys\<newline>\<newline>''"]
    unfolding b by (simp add: nl_def)
qed

text \<open>
  Claim C9. A line is recognized by its first bytes alone: every line of the file for
  which the test of the loop holds reaches the statement list. \<open>importlib.reload(m)\<close> and
  \<open>fromage = 1\<close> are such lines; the module name cannot be extracted from them, and the
  \<open>ValueError\<close> ends the pipeline, the loop body of \<open>main\<close> and the run.
\<close>

theorem prefix_recognition_misfires:
  "(is_import_line line \<and> line \<in> set (readlines text) \<longrightarrow>
      py_strip line \<in> set (snd (get_import_lines text)))
   \<and> snd (get_import_lines ''importlib.reload(m)\<newline>fromage = 1\<newline>'') =
       [''importlib.reload(m)'', ''fromage = 1'']
   \<and> get_module_name_from_import ''importlib.reload(m)'' = Inl ValueError
   \<and> get_module_name_from_import ''fromage = 1'' = Inl ValueError
   \<and> canonical_imports env override ''importlib.reload(m)\<newline>'' = Inl ValueError
   \<and> canonical_imports env override ''fromage = 1\<newline>'' = Inl ValueError
   \<and> check_file env args ''importlib.reload(m)\<newline>'' = Inl ValueError
   \<and> (fs py_file = Some ''fromage = 1\<newline>'' \<and> cl_files args = [py_file] \<longrightarrow>
        main env fs args = Inl ValueError)"
proof -
  have a: "get_import_lines ''importlib.reload(m)\<newline>'' =
      (''importlib.reload(m)'', [''importlib.reload(m)''])"
    by code_simp
  have b: "get_import_lines ''fromage = 1\<newline>'' = (''fromage = 1'', [''fromage = 1''])"
    by code_simp
  have c: "snd (get_import_lines ''importlib.reload(m)\<newline>fromage = 1\<newline>'') =
       [''importlib.reload(m)'', ''fromage = 1'']"
    by code_simp
  have d: "get_module_name_from_import ''importlib.reload(m)'' = Inl ValueError"
    by code_simp
  have e: "get_module_name_from_import ''fromage = 1'' = Inl ValueError"
    by code_simp
  have f: "py_strip line \<in> set (snd (get_import_lines text))"
    if "is_import_line line" "line \<in> set (readlines text)"
    using that by (simp add: get_import_lines_block)
  show ?thesis
    using f by (simp add: a b c d e canonical_imports_def group_and_order_def
        construct_import_dict_def
        check_file_def main_def)
qed

theorem prefix_recognition_misfires_witness:
  "is_import_line ''importlib.reload(m)\<newline>''
   \<and> ''importlib.reload(m)\<newline>'' \<in> set (readlines ''import os\<newline>importlib.reload(m)\<newline>'')
   \<and> ''importlib.reload(m)'' \<in> set (snd (get_import_lines ''import os\<newline>importlib.reload(m)\<newline>''))
   \<and> main (\<lambda>_. ImportFails) [''a.py'' \<mapsto> ''fromage = 1\<newline>'']
        \<lparr>cl_standard = [], cl_third_party = [], cl_local = [], cl_files = [''a.py'']\<rparr> =
      Inl ValueError"
proof -
  have a: "is_import_line ''importlib.reload(m)\<newline>''" by code_simp
  have b: "readlines ''import os\<newline>importlib.reload(m)\<newline>'' =
     [''import os\<newline>'', ''importlib.reload(m)\<newline>'']" by code_simp
  have c: "py_strip ''importlib.reload(m)\<newline>'' = ''importlib.reload(m)''" by code_simp
  have m: "''importlib.reload(m)\<newline>'' \<in> set (readlines ''import os\<newline>importlib.reload(m)\<newline>'')"
    unfolding b by simp
  note p = prefix_recognition_misfires [of "''importlib.reload(m)\<newline>''"
        "''import os\<newline>importlib.reload(m)\<newline>''" "\<lambda>_. ImportFails" None
        "\<lparr>cl_standard = [], cl_third_party = [], cl_local = [], cl_files = [''a.py'']\<rparr>"
        "[''a.py'' \<mapsto> ''fromage = 1\<newline>'']" "''a.py''"]
  have 1: "''importlib.reload(m)'' \<in> set (snd (get_import_lines ''import os\<newline>importlib.reload(m)\<newline>''))"
    using p [THEN conjunct1] a m unfolding c by (rule mp [OF _ conjI])
  have 2: "main (\<lambda>_. ImportFails) [''a.py'' \<mapsto> ''fromage = 1\<newline>'']
        \<lparr>cl_standard = [], cl_third_party = [], cl_local = [], cl_files = [''a.py'']\<rparr> =
      Inl ValueError"
    by (rule mp [OF p [THEN conjunct2, THEN conjunct2, THEN conjunct2, THEN conjunct2,
          THEN conjunct2, THEN conjunct2, THEN conjunct2]]) simp
  show ?thesis
    using a m 1 2 by (intro conjI)
qed

section \<open>The text of the orderer\<close>

subsection \<open>Joining and splitting\<close>

lemma py_join_Cons: "ys \<noteq> [] \<Longrightarrow> py_join sep (x # ys) = x @ sep @ py_join sep ys"
  by (cases ys) simp_all

lemma py_join_append:
  "xs \<noteq> [] \<Longrightarrow> ys \<noteq> [] \<Longrightarrow> py_join sep (xs @ ys) = py_join sep xs @ sep @ py_join sep ys"
  by (induction sep xs rule: py_join.induct) (simp_all add: py_join_Cons)

lemma py_join_empty_iff:
  "\<forall>y \<in> set ys. y \<noteq> [] \<Longrightarrow> py_join sep ys = [] \<longleftrightarrow> ys = []"
  by (induction sep ys rule: py_join.induct) auto

lemma py_join_hd:
  "L \<noteq> [] \<Longrightarrow> hd L \<noteq> [] \<Longrightarrow> hd (py_join sep L) = hd (hd L)"
  by (induction sep L rule: py_join.induct) auto

lemma py_join_nonempty:
  "L \<noteq> [] \<Longrightarrow> last L \<noteq> [] \<Longrightarrow> py_join sep L \<noteq> []"
  by (induction sep L rule: py_join.induct) auto

lemma py_join_last:
  "L \<noteq> [] \<Longrightarrow> last L \<noteq> [] \<Longrightarrow> last (py_join sep L) = last (last L)"
proof (induction sep L rule: py_join.induct)
  case (3 sep x y ys)
  then have "py_join sep (y # ys) \<noteq> []"
    using py_join_nonempty [of "y # ys" sep] by simp
  with 3 show ?case by simp
qed simp_all

lemma join_of_blocks:
  "\<forall>b \<in> set bs. b \<noteq> [] \<Longrightarrow>
     py_join [nl, nl] (map (py_join [nl]) bs) = py_join [nl] (py_join [[]] bs)"
proof (induction "[[]::string]" bs rule: py_join.induct)
  case 1
  show ?case by simp
next
  case (2 x)
  show ?case by simp
next
  case (3 x y ys)
  let ?J = "py_join [[]] (y # ys)"
  have j: "?J \<noteq> []" using 3(2) by (cases ys) auto
  have "py_join [nl] (x @ [] # ?J) = py_join [nl] x @ [nl] @ py_join [nl] ([] # ?J)"
    using 3(2) py_join_append [of x "[] # ?J" "[nl]"] by simp
  also have "py_join [nl] ([] # ?J) = [nl] @ py_join [nl] ?J"
    using j by (simp add: py_join_Cons)
  finally show ?case
    using 3 by simp
qed

lemma split_on_nonempty: "split_on sep s \<noteq> []"
  by (induction s) (auto split: list.splits)

lemma split_on_single: "sep \<notin> set x \<Longrightarrow> split_on sep x = [x]"
  by (induction x) auto

lemma split_on_append:
  "sep \<notin> set x \<Longrightarrow> split_on sep (x @ sep # rest) = x # split_on sep rest"
  by (induction x) auto

lemma split_on_join:
  "L \<noteq> [] \<Longrightarrow> \<forall>l \<in> set L. nl \<notin> set l \<Longrightarrow> split_on nl (py_join [nl] L) = L"
  by (induction "[nl]" L rule: py_join.induct) (simp_all add: split_on_single split_on_append)

lemma ndb_append:
  "no_double_blank xs \<Longrightarrow> no_double_blank ys \<Longrightarrow> last xs \<noteq> [] \<Longrightarrow>
     no_double_blank (xs @ ys)"
proof (induction xs)
  case Nil
  then show ?case by simp
next
  case (Cons x xs)
  show ?case
  proof (cases xs)
    case Nil
    with Cons.prems show ?thesis by (cases ys) auto
  next
    case (Cons y zs)
    with Cons.prems Cons.IH show ?thesis by auto
  qed
qed

lemma ndb_nonblank: "\<forall>x \<in> set xs. x \<noteq> [] \<Longrightarrow> no_double_blank xs"
  by (induction xs rule: no_double_blank.induct) auto

lemma ndb_blank_Cons:
  "ys \<noteq> [] \<Longrightarrow> hd ys \<noteq> [] \<Longrightarrow> no_double_blank ys \<Longrightarrow> no_double_blank ([] # ys)"
  by (cases ys) auto

lemma lines_of_blocks:
  assumes "\<forall>b \<in> set bs. b \<noteq> [] \<and> (\<forall>x \<in> set b. x \<noteq> [] \<and> nl \<notin> set x)"
  shows "no_double_blank (py_join [[]] bs)
     \<and> (bs \<noteq> [] \<longrightarrow> py_join [[]] bs \<noteq> [] \<and> hd (py_join [[]] bs) \<noteq> []
           \<and> last (py_join [[]] bs) \<noteq> [])
     \<and> (\<forall>l \<in> set (py_join [[]] bs). nl \<notin> set l)"
  using assms
proof (induction "[[]::string]" bs rule: py_join.induct)
  case 1
  show ?case by simp
next
  case (2 x)
  then have "x \<noteq> []" "\<forall>s \<in> set x. s \<noteq> [] \<and> nl \<notin> set s" by auto
  then show ?case
    using hd_in_set [of x] last_in_set [of x] by (auto simp: ndb_nonblank)
next
  case (3 x y ys)
  let ?J = "py_join [[]] (y # ys)"
  from 3 have ih: "no_double_blank ?J" "?J \<noteq> []" "hd ?J \<noteq> []" "last ?J \<noteq> []"
    "\<forall>l \<in> set ?J. nl \<notin> set l"
    by auto
  from 3(2) have x: "x \<noteq> []" "\<forall>s \<in> set x. s \<noteq> [] \<and> nl \<notin> set s" by auto
  then have lx: "last x \<noteq> []" by (cases x rule: rev_cases) auto
  have nx: "no_double_blank x"
    using x by (simp add: ndb_nonblank)
  have nj: "no_double_blank ([] # ?J)"
    using ih by (simp add: ndb_blank_Cons)
  have "no_double_blank (x @ ([] # ?J))"
    using nx nj lx by (rule ndb_append)
  moreover have "hd (x @ [] # ?J) \<noteq> []" using x by (cases x) auto
  moreover have "last (x @ [] # ?J) \<noteq> []" using ih by simp
  ultimately show ?case using x ih by (auto simp: nl_def)
qed

subsection \<open>The blocks of the three categories\<close>

lemma module_key_short: "module_key [] = None" "module_key [c] = None"
  by (simp_all add: module_key_def split_ws_def py_lower_def)

lemma sorted_by_key_StrList:
  "sorted_by_key (StrList xs) = Inr ys \<longleftrightarrow>
     (\<forall>x \<in> set xs. module_key x \<noteq> None) \<and> ys = sort_key module_key xs"
  by (auto simp: sorted_by_key_def)

lemma sorted_by_key_Str:
  "sorted_by_key (Str s) = Inr ys \<Longrightarrow> s = [] \<and> ys = []"
  by (cases s) (auto simp: sorted_by_key_def module_key_short split: if_splits)

lemma rebound_value_block:
  assumes "rebound_value g k = Inr b"
    and "\<forall>xs. g k = Some (StrList xs) \<longrightarrow> (\<forall>s \<in> set xs. nl \<notin> set s)"
  shows "\<exists>ys. b = py_join [nl] ys \<and> (\<forall>y \<in> set ys. y \<noteq> [] \<and> nl \<notin> set y)"
proof (cases "g k")
  case None
  with assms(1) have "b = py_join [nl] []" by (simp add: rebound_value_def)
  then show ?thesis by (intro exI [of _ "[]"]) simp
next
  case (Some v)
  with assms(1) obtain ys where s: "sorted_by_key v = Inr ys" and b: "b = py_join [nl] ys"
    by (auto simp: rebound_value_def split: sum.splits)
  show ?thesis
  proof (cases v)
    case (StrList xs)
    with s have k: "\<forall>x \<in> set xs. module_key x \<noteq> None" and y: "ys = sort_key module_key xs"
      by (simp_all add: sorted_by_key_StrList)
    from k have "\<forall>x \<in> set xs. x \<noteq> []" using module_key_short(1) by auto
    moreover have "\<forall>x \<in> set xs. nl \<notin> set x" using assms(2) Some StrList by simp
    ultimately show ?thesis using b y by (intro exI [of _ ys]) simp
  next
    case (Str t)
    with s have "ys = []" using sorted_by_key_Str by blast
    with b show ?thesis by (intro exI [of _ "[]"]) simp
  qed
qed

lemma rebound_value_upd:
  "k' \<noteq> k \<Longrightarrow> rebound_value (g(k' \<mapsto> v)) k = rebound_value g k"
  by (simp add: rebound_value_def)

lemma nonempty_blocks_three:
  "nonempty_blocks category_keys
     (g(''standard'' \<mapsto> Str b1, ''third_party'' \<mapsto> Str b2, ''local'' \<mapsto> Str b3)) =
   Inr (filter (\<lambda>b. b \<noteq> []) [b1, b2, b3])"
  by (simp add: category_keys_def)

lemma get_ordered_imports_blocks:
  "get_ordered_imports g = Inr (text, r) \<longleftrightarrow>
     (\<exists>b1 b2 b3. rebound_value g ''standard'' = Inr b1
        \<and> rebound_value g ''third_party'' = Inr b2
        \<and> rebound_value g ''local'' = Inr b3
        \<and> text = py_join [nl, nl] (filter (\<lambda>b. b \<noteq> []) [b1, b2, b3])
        \<and> r = g(''standard'' \<mapsto> Str b1, ''third_party'' \<mapsto> Str b2, ''local'' \<mapsto> Str b3))"
proof -
  have "rebind_keys category_keys g =
     (case rebound_value g ''standard'' of Inl e \<Rightarrow> Inl e | Inr b1 \<Rightarrow>
        case rebound_value g ''third_party'' of Inl e \<Rightarrow> Inl e | Inr b2 \<Rightarrow>
        case rebound_value g ''local'' of Inl e \<Rightarrow> Inl e | Inr b3 \<Rightarrow>
          Inr (g(''standard'' \<mapsto> Str b1, ''third_party'' \<mapsto> Str b2, ''local'' \<mapsto> Str b3)))"
    by (simp add: category_keys_def rebound_value_upd split: sum.splits)
  then show ?thesis
    unfolding get_ordered_imports_def
    by (auto simp: nonempty_blocks_three split: sum.splits)
qed

lemma orderer_lines:
  assumes "get_ordered_imports g = Inr (text, r)"
    and "\<forall>key \<in> set category_keys. \<forall>xs. g key = Some (StrList xs) \<longrightarrow> (\<forall>s \<in> set xs. nl \<notin> set s)"
  shows "\<exists>L. text = py_join [nl] L \<and> no_double_blank L \<and> (\<forall>l \<in> set L. nl \<notin> set l)
           \<and> (L \<noteq> [] \<longrightarrow> hd L \<noteq> [] \<and> last L \<noteq> [])"
proof -
  from assms(1) obtain b1 b2 b3 where
    b: "rebound_value g ''standard'' = Inr b1" "rebound_value g ''third_party'' = Inr b2"
       "rebound_value g ''local'' = Inr b3"
    and t: "text = py_join [nl, nl] (filter (\<lambda>b. b \<noteq> []) [b1, b2, b3])"
    unfolding get_ordered_imports_blocks by blast
  have w: "\<forall>xs. g k = Some (StrList xs) \<longrightarrow> (\<forall>s \<in> set xs. nl \<notin> set s)"
    if "k \<in> set category_keys" for k
    using assms(2) that by blast
  obtain ys1 where y1: "b1 = py_join [nl] ys1" "\<forall>y \<in> set ys1. y \<noteq> [] \<and> nl \<notin> set y"
    using rebound_value_block [OF b(1) w] by (auto simp: category_keys_def)
  obtain ys2 where y2: "b2 = py_join [nl] ys2" "\<forall>y \<in> set ys2. y \<noteq> [] \<and> nl \<notin> set y"
    using rebound_value_block [OF b(2) w] by (auto simp: category_keys_def)
  obtain ys3 where y3: "b3 = py_join [nl] ys3" "\<forall>y \<in> set ys3. y \<noteq> [] \<and> nl \<notin> set y"
    using rebound_value_block [OF b(3) w] by (auto simp: category_keys_def)
  define bs where "bs = filter (\<lambda>ys. ys \<noteq> []) [ys1, ys2, ys3]"
  have f: "filter (\<lambda>b. b \<noteq> []) [b1, b2, b3] = map (py_join [nl]) bs"
    unfolding bs_def y1(1) y2(1) y3(1) using y1(2) y2(2) y3(2)
    by (simp add: py_join_empty_iff)
  have wf: "\<forall>b \<in> set bs. b \<noteq> [] \<and> (\<forall>x \<in> set b. x \<noteq> [] \<and> nl \<notin> set x)"
    unfolding bs_def using y1(2) y2(2) y3(2) by auto
  then have "text = py_join [nl] (py_join [[]] bs)"
    unfolding t f by (intro join_of_blocks) simp
  moreover have "bs = [] \<Longrightarrow> py_join [[]] bs = []" by simp
  ultimately show ?thesis
    using lines_of_blocks [OF wf] by (intro exI [of _ "py_join [[]] bs"]) auto
qed

text \<open>
  Claim C5, as the specification states it, fails for a grouped input that holds a
  statement with a newline: the orderer joins the statements as they are, so the newline
  at the end of \<open>import a\<close> and the separator give two consecutive blank lines.
\<close>

theorem orderer_newline_counterexample:
  "map_sum id fst (get_ordered_imports
     [''standard'' \<mapsto> StrList [''import a\<newline>''], ''local'' \<mapsto> StrList [''import b'']])
   = Inr ''import a\<newline>\<newline>\<newline>import b''
   \<and> split_on nl ''import a\<newline>\<newline>\<newline>import b'' = [''import a'', [], [], ''import b'']
   \<and> \<not> no_double_blank (split_on nl ''import a\<newline>\<newline>\<newline>import b'')"
  by code_simp

text \<open>
  Claim C5, amended. The text that the orderer returns is the join, with one blank line as
  the separator, of the blocks of the categories \<open>standard\<close>, \<open>third_party\<close> and
  \<open>local\<close> that are not empty, in this order. When no statement of the grouped input
  contains a newline, the text neither starts nor ends with a newline, its first and its
  last line are not blank, and no two consecutive lines are blank.
\<close>

theorem orderer_blank_lines:
  "get_ordered_imports grouped_imports = Inr (text, rebound) \<Longrightarrow>
   (\<forall>key \<in> set category_keys. \<forall>xs. grouped_imports key = Some (StrList xs) \<longrightarrow>
      (\<forall>s \<in> set xs. nl \<notin> set s)) \<Longrightarrow>
     (\<exists>b1 b2 b3. rebound_value grouped_imports ''standard'' = Inr b1
        \<and> rebound_value grouped_imports ''third_party'' = Inr b2
        \<and> rebound_value grouped_imports ''local'' = Inr b3
        \<and> text = py_join [nl, nl] (filter (\<lambda>b. b \<noteq> []) [b1, b2, b3]))
     \<and> (text \<noteq> [] \<longrightarrow> hd text \<noteq> nl \<and> last text \<noteq> nl)
     \<and> (text \<noteq> [] \<longrightarrow> hd (split_on nl text) \<noteq> [] \<and> last (split_on nl text) \<noteq> [])
     \<and> no_double_blank (split_on nl text)"
proof -
  assume a: "get_ordered_imports grouped_imports = Inr (text, rebound)"
    and w: "\<forall>key \<in> set category_keys. \<forall>xs. grouped_imports key = Some (StrList xs) \<longrightarrow>
      (\<forall>s \<in> set xs. nl \<notin> set s)"
  from a have s: "\<exists>b1 b2 b3. rebound_value grouped_imports ''standard'' = Inr b1
        \<and> rebound_value grouped_imports ''third_party'' = Inr b2
        \<and> rebound_value grouped_imports ''local'' = Inr b3
        \<and> text = py_join [nl, nl] (filter (\<lambda>b. b \<noteq> []) [b1, b2, b3])"
    unfolding get_ordered_imports_blocks by blast
  from orderer_lines [OF a w] obtain L where
    t: "text = py_join [nl] L" and n: "no_double_blank L" and f: "\<forall>l \<in> set L. nl \<notin> set l"
    and e: "L \<noteq> [] \<longrightarrow> hd L \<noteq> [] \<and> last L \<noteq> []"
    by blast
  show ?thesis
  proof (cases "L = []")
    case True
    then show ?thesis using s t by simp
  next
    case False
    with e have h: "hd L \<noteq> []" "last L \<noteq> []" by auto
    have sp: "split_on nl text = L"
      unfolding t using False f by (rule split_on_join)
    have "hd text = hd (hd L)" unfolding t using False h(1) by (rule py_join_hd)
    moreover have "hd (hd L) \<in> set (hd L)" using h(1) by simp
    moreover have "hd L \<in> set L" using False by simp
    ultimately have 1: "hd text \<noteq> nl" using f by metis
    have "last text = last (last L)" unfolding t using False h(2) by (rule py_join_last)
    moreover have "last (last L) \<in> set (last L)" using h(2) by simp
    moreover have "last L \<in> set L" using False by simp
    ultimately have 2: "last text \<noteq> nl" using f by metis
    show ?thesis using s 1 2 h n unfolding sp by simp
  qed
qed

theorem orderer_blank_lines_witness:
  "map_sum id fst (get_ordered_imports
     [''standard'' \<mapsto> StrList [''import built_in''],
      ''third_party'' \<mapsto> StrList [''import z_third_party'', ''import a_third_party''],
      ''local'' \<mapsto> StrList [''import last'']])
   = Inr ''import built_in\<newline>\<newline>import a_third_party\<newline>import z_third_party\<newline>\<newline>import last''
   \<and> no_double_blank (split_on nl
       ''import built_in\<newline>\<newline>import a_third_party\<newline>import z_third_party\<newline>\<newline>import last'')
   \<and> hd (split_on nl
       ''import built_in\<newline>\<newline>import a_third_party\<newline>import z_third_party\<newline>\<newline>import last'') \<noteq> []
   \<and> last (split_on nl
       ''import built_in\<newline>\<newline>import a_third_party\<newline>import z_third_party\<newline>\<newline>import last'') \<noteq> []"
proof -
  let ?G = "[''standard'' \<mapsto> StrList [''import built_in''],
      ''third_party'' \<mapsto> StrList [''import z_third_party'', ''import a_third_party''],
      ''local'' \<mapsto> StrList [''import last'']]"
  let ?T = "''import built_in\<newline>\<newline>import a_third_party\<newline>import z_third_party\<newline>\<newline>import last''"
  have e: "map_sum id fst (get_ordered_imports ?G) = Inr ?T"
    by code_simp
  then obtain R where h: "get_ordered_imports ?G = Inr (?T, R)"
    by (cases "get_ordered_imports ?G") auto
  have w: "\<forall>key \<in> set category_keys. \<forall>xs. ?G key = Some (StrList xs) \<longrightarrow>
      (\<forall>s \<in> set xs. nl \<notin> set s)"
    by (simp add: category_keys_def nl_def)
  have ne: "?T \<noteq> []" by simp
  show ?thesis
    using e orderer_blank_lines [OF h w] ne by blast
qed

section \<open>Running the pipeline on its own output\<close>

subsection \<open>The dictionary of the grouper\<close>

lemma group_lines_Cons:
  "group_lines env ov (l # rest) fin =
     (case category_of env ov l of
        Inl e \<Rightarrow> Inl e
      | Inr k \<Rightarrow> group_lines env ov rest (add_import fin k l))"
  by (simp add: category_of_def split: sum.splits bool.splits)

lemma category_of_keys: "category_of env ov l = Inr k \<Longrightarrow> k \<in> set category_keys"
  by (auto simp: category_of_def category_keys_def split: sum.splits bool.splits if_splits)

lemma group_lines_success:
  "group_lines env ov ls fin = Inr g \<Longrightarrow> \<forall>l \<in> set ls. \<exists>k. category_of env ov l = Inr k"
proof (induction ls arbitrary: fin)
  case Nil
  show ?case by simp
next
  case (Cons l ls)
  from Cons.prems obtain k where k: "category_of env ov l = Inr k"
    and r: "group_lines env ov ls (add_import fin k l) = Inr g"
    unfolding group_lines_Cons by (auto split: sum.splits)
  from Cons.IH [OF r] k show ?case by auto
qed

lemma group_lines_result:
  assumes "\<forall>l \<in> set ls. \<exists>k. category_of env ov l = Inr k"
  shows "group_lines env ov ls fin =
     Inr (\<lambda>k. if filter (\<lambda>l. category_of env ov l = Inr k) ls = [] then fin k
               else Some (StrList ((case fin k of Some (StrList xs) \<Rightarrow> xs | _ \<Rightarrow> []) @
                      filter (\<lambda>l. category_of env ov l = Inr k) ls)))"
  using assms
proof (induction ls arbitrary: fin)
  case Nil
  show ?case by simp
next
  case (Cons l ls)
  from Cons.prems obtain k0 where k0: "category_of env ov l = Inr k0" by auto
  from Cons.prems have r: "\<forall>l \<in> set ls. \<exists>k. category_of env ov l = Inr k" by simp
  show ?case
    unfolding group_lines_Cons k0 sum.case Cons.IH [OF r]
    by (auto simp: add_import_def fun_eq_iff k0)
qed

lemma construct_import_dict_result:
  assumes "\<forall>l \<in> set ls. \<exists>k. category_of env ov l = Inr k"
  shows "construct_import_dict env ov ls =
     Inr (\<lambda>k. if filter (\<lambda>l. category_of env ov l = Inr k) ls = [] then None
               else Some (StrList (filter (\<lambda>l. category_of env ov l = Inr k) ls)))"
  unfolding construct_import_dict_def group_lines_result [OF assms]
  by (simp cong: if_cong)

lemma rebound_value_lists:
  assumes "g k = (if F = [] then None else Some (StrList F))"
  shows "rebound_value g k =
     (if \<forall>x \<in> set F. module_key x \<noteq> None then Inr (py_join [nl] (sort_key module_key F))
      else Inl IndexError)"
  using assms by (auto simp: rebound_value_def sorted_by_key_def)

lemma group_and_order_eq:
  assumes ok: "\<forall>l \<in> set S. \<exists>k. category_of env ov l = Inr k"
    and keys: "\<forall>l \<in> set S. module_key l \<noteq> None"
  shows "group_and_order env ov S =
     Inr (py_join [nl, nl] (filter (\<lambda>b. b \<noteq> [])
       (map (\<lambda>k. py_join [nl] (sort_key module_key (filter (\<lambda>l. category_of env ov l = Inr k) S)))
          category_keys)))"
proof -
  let ?F = "\<lambda>k. filter (\<lambda>l. category_of env ov l = Inr k) S"
  let ?g = "\<lambda>k. if ?F k = [] then None else Some (StrList (?F k))"
  have c: "construct_import_dict env ov S = Inr ?g"
    by (rule construct_import_dict_result [OF ok])
  have r: "rebound_value ?g k = Inr (py_join [nl] (sort_key module_key (?F k)))" for k
    using keys by (subst rebound_value_lists [of ?g k "?F k"]) auto
  have "\<exists>rb. get_ordered_imports ?g =
     Inr (py_join [nl, nl] (filter (\<lambda>b. b \<noteq> [])
       [py_join [nl] (sort_key module_key (?F ''standard'')),
        py_join [nl] (sort_key module_key (?F ''third_party'')),
        py_join [nl] (sort_key module_key (?F ''local''))]), rb)"
    unfolding get_ordered_imports_blocks r by blast
  then show ?thesis
    unfolding group_and_order_def c by (auto simp: category_keys_def)
qed

lemma group_and_order_success:
  assumes "group_and_order env ov S = Inr out"
  shows "(\<forall>l \<in> set S. \<exists>k. category_of env ov l = Inr k) \<and> (\<forall>l \<in> set S. module_key l \<noteq> None)"
proof -
  let ?F = "\<lambda>k. filter (\<lambda>l. category_of env ov l = Inr k) S"
  let ?g = "\<lambda>k. if ?F k = [] then None else Some (StrList (?F k))"
  from assms obtain g where c: "construct_import_dict env ov S = Inr g"
    and o: "map_sum id fst (get_ordered_imports g) = Inr out"
    unfolding group_and_order_def by (auto split: sum.splits)
  from c have ok: "\<forall>l \<in> set S. \<exists>k. category_of env ov l = Inr k"
    unfolding construct_import_dict_def by (rule group_lines_success)
  from c have g: "g = ?g"
    unfolding construct_import_dict_result [OF ok] by simp
  from o obtain rb where "get_ordered_imports ?g = Inr (out, rb)"
    unfolding g by (cases "get_ordered_imports ?g") auto
  then have rv: "\<exists>b. rebound_value ?g k = Inr b" if "k \<in> set category_keys" for k
    using that unfolding get_ordered_imports_blocks category_keys_def by auto
  have "module_key l \<noteq> None" if l: "l \<in> set S" for l
  proof -
    from ok l obtain k where k: "category_of env ov l = Inr k" by blast
    then have "k \<in> set category_keys" by (rule category_of_keys)
    from rv [OF this] obtain b where b: "rebound_value ?g k = Inr b" by blast
    have "\<forall>x \<in> set (?F k). module_key x \<noteq> None"
      using b by (subst (asm) rebound_value_lists [of ?g k "?F k"]) (auto split: if_splits)
    with l k show ?thesis by simp
  qed
  with ok show ?thesis by blast
qed

subsection \<open>Extracting from the canonical text\<close>

lemma readlines_Nil_iff: "readlines x = [] \<longleftrightarrow> x = []"
  by (cases x) (auto split: list.splits)

lemma readlines_single: "x \<noteq> [] \<Longrightarrow> nl \<notin> set x \<Longrightarrow> readlines x = [x]"
proof (induction x)
  case Nil
  then show ?case by simp
next
  case (Cons c x)
  show ?case
  proof (cases "x = []")
    case True
    with Cons.prems show ?thesis by simp
  next
    case False
    with Cons have "readlines x = [x]" by simp
    with Cons.prems show ?thesis by auto
  qed
qed

lemma readlines_append:
  "nl \<notin> set x \<Longrightarrow> readlines (x @ nl # rest) = (x @ [nl]) # readlines rest"
  by (induction x) auto

lemma readlines_join:
  "L \<noteq> [] \<Longrightarrow> last L \<noteq> [] \<Longrightarrow> \<forall>l \<in> set L. nl \<notin> set l \<Longrightarrow>
     readlines (py_join [nl] L) = map (\<lambda>l. l @ [nl]) (butlast L) @ [last L]"
  by (induction "[nl]" L rule: py_join.induct) (simp_all add: readlines_single readlines_append)

lemma statement_line:
  assumes "is_statement s"
  shows "block_entries (s @ [nl]) = [s]" and "block_entries s = [s]"
    and "is_import_line (s @ [nl])"
proof -
  from assms have i: "is_import_line s" and t: "py_strip s = s" and n: "nl \<notin> set s"
    unfolding is_statement_def by auto
  from i have ne: "s \<noteq> []" using import_line_strip(3) t by fastforce
  have sp: "is_space nl" by (simp add: is_space_def nl_def)
  have l: "\<not> is_space (last s)" using py_strip_last [of s] ne t by simp
  from i obtain p r where s: "s = p @ r" and p: "p = ''import'' \<or> p = ''from''"
    unfolding is_import_line_def startswith_append by blast
  then have h: "\<not> is_space (hd s)" by (auto simp: is_space_def)
  have "py_strip (s @ [nl]) = s @ rev (dropWhile is_space (rev [nl]))"
    using ne h l by (rule py_strip_keep)
  then have st: "py_strip (s @ [nl]) = s" using sp by simp
  have q: "startswith (s @ [nl]) q \<longleftrightarrow> startswith s q" if "nl \<notin> set q" for q
  proof
    assume "startswith (s @ [nl]) q"
    then obtain u where u: "s @ [nl] = q @ u" unfolding startswith_append by blast
    show "startswith s q"
    proof (cases u rule: rev_cases)
      case Nil
      with u that show ?thesis by (metis append_Nil2 in_set_conv_decomp)
    next
      case (snoc u' c)
      with u have "s = q @ u'" by simp
      then show ?thesis unfolding startswith_append by blast
    qed
  next
    assume "startswith s q"
    then show "startswith (s @ [nl]) q" unfolding startswith_append by auto
  qed
  have q1: "startswith (s @ [nl]) ''import'' \<longleftrightarrow> startswith s ''import''"
    by (rule q) (simp add: nl_def)
  have q2: "startswith (s @ [nl]) ''from'' \<longleftrightarrow> startswith s ''from''"
    by (rule q) (simp add: nl_def)
  have q3: "startswith (s @ [nl]) ''from __future__'' \<longleftrightarrow> startswith s ''from __future__''"
    by (rule q) (simp add: nl_def)
  show i': "is_import_line (s @ [nl])"
    using i unfolding is_import_line_def q1 q2 q3 .
  show "block_entries (s @ [nl]) = [s]"
    using i' st by (simp add: block_entries_def)
  show "block_entries s = [s]"
    using i t by (simp add: block_entries_def)
qed

lemma blank_line: "block_entries [nl] = [[]]"
  by (simp add: block_entries_def is_import_line_def startswith_def nl_def)

lemma concat_singletons: "\<forall>x \<in> set xs. f x = [g x] \<Longrightarrow> concat (map f xs) = map g xs"
  by (induction xs) auto

lemma reextract:
  assumes st: "\<forall>l \<in> set L. l = [] \<or> is_statement l"
    and ends: "L \<noteq> [] \<longrightarrow> hd L \<noteq> [] \<and> last L \<noteq> []"
  shows "get_import_lines (py_join [nl] L) = (py_join [nl] L, filter (\<lambda>i. i \<noteq> []) L)"
proof (cases "L = []")
  case True
  then show ?thesis by (simp add: get_import_lines_def)
next
  case False
  with ends have h: "hd L \<noteq> []" and l: "last L \<noteq> []" by auto
  have nf: "\<forall>l \<in> set L. nl \<notin> set l"
    using st unfolding is_statement_def by auto
  let ?ls = "map (\<lambda>l. l @ [nl]) (butlast L) @ [last L]"
  have r: "readlines (py_join [nl] L) = ?ls"
    using False l nf by (rule readlines_join)
  have sl: "is_statement (last L)" using st False l last_in_set by blast
  have sh: "is_statement (hd L)" using st False h hd_in_set by blast
  have "\<forall>x \<in> set (butlast L). block_entries (x @ [nl]) = [x]"
  proof
    fix x assume "x \<in> set (butlast L)"
    then have "x \<in> set L" by (rule in_set_butlastD)
    with st show "block_entries (x @ [nl]) = [x]"
      using statement_line(1) blank_line by fastforce
  qed
  then have "concat (map (\<lambda>x. block_entries (x @ [nl])) (butlast L)) = map (\<lambda>x. x) (butlast L)"
    by (rule concat_singletons)
  then have c: "concat (map block_entries ?ls) = L"
    using statement_line(2) [OF sl] False by (simp add: comp_def)
  have "is_import_line (hd ?ls)"
  proof (cases "butlast L")
    case Nil
    then have "hd ?ls = last L" by simp
    then show ?thesis using sl unfolding is_statement_def by simp
  next
    case (Cons a as)
    then have "hd ?ls = hd L @ [nl]"
      using False by (cases L) (auto split: if_splits)
    then show ?thesis using statement_line(3) [OF sh] by simp
  qed
  then have d: "dropWhile (\<lambda>l. \<not> is_import_line l) ?ls = ?ls"
    by (cases ?ls) auto
  have "rev (dropWhile (\<lambda>x. x = []) (rev (L @ []))) = L"
    using False l by (intro drop_trailing_blanks) auto
  then have b: "import_block ?ls = L"
    unfolding import_block_def d c by simp
  have "filter (\<lambda>i. i \<noteq> []) (import_block ?ls) = map py_strip (filter is_import_line ?ls)"
    by (rule statements_of_block)
  then show ?thesis
    unfolding get_import_lines_block r b by simp
qed

lemma filter_join_blocks:
  "\<forall>b \<in> set bs. \<forall>x \<in> set b. x \<noteq> [] \<Longrightarrow>
     filter (\<lambda>i. i \<noteq> []) (py_join [[]] (bs :: string list list)) = concat bs"
  by (induction "[[]::string]" bs rule: py_join.induct) (auto simp: filter_id_conv)

lemma set_join_blocks:
  "set (py_join [[]] (bs :: string list list)) \<subseteq> insert [] (\<Union> (set ` set bs))"
  by (induction "[[]::string]" bs rule: py_join.induct) auto

lemma concat_filter_nonempty: "concat (filter (\<lambda>b. b \<noteq> []) bs) = concat bs"
  by (induction bs) auto

lemma filter_concat_other:
  "\<forall>j \<in> set ks. \<forall>s \<in> set (Y j). c s = Inr j \<Longrightarrow> k \<notin> set ks \<Longrightarrow>
     filter (\<lambda>s. c s = Inr k) (concat (map Y ks)) = []"
  by (induction ks) (auto simp: filter_empty_conv)

lemma filter_concat_distinct:
  "distinct ks \<Longrightarrow> k \<in> set ks \<Longrightarrow> \<forall>j \<in> set ks. \<forall>s \<in> set (Y j). c s = Inr j \<Longrightarrow>
     filter (\<lambda>s. c s = Inr k) (concat (map Y ks)) = Y k"
proof (induction ks)
  case Nil
  then show ?case by simp
next
  case (Cons j ks)
  show ?case
  proof (cases "k = j")
    case True
    with Cons.prems have "k \<notin> set ks" by simp
    then have "filter (\<lambda>s. c s = Inr k) (concat (map Y ks)) = []"
      using Cons.prems(3) by (intro filter_concat_other) auto
    moreover have "filter (\<lambda>s. c s = Inr k) (Y k) = Y k"
      using Cons.prems(3) True by (simp add: filter_id_conv)
    ultimately show ?thesis using True by simp
  next
    case False
    then have "filter (\<lambda>s. c s = Inr k) (Y j) = []"
      using Cons.prems(3) by (auto simp: filter_empty_conv)
    moreover have "filter (\<lambda>s. c s = Inr k) (concat (map Y ks)) = Y k"
      using Cons False by auto
    ultimately show ?thesis by simp
  qed
qed

lemma filter_map_blocks:
  "\<forall>k \<in> set ks. \<forall>y \<in> set (Y k). y \<noteq> [] \<Longrightarrow>
     filter (\<lambda>b. b \<noteq> []) (map (\<lambda>k. py_join [nl] (Y k)) ks) =
     map (py_join [nl]) (filter (\<lambda>b. b \<noteq> []) (map Y ks))"
  by (induction ks) (auto simp: py_join_empty_iff)

lemma verify_same: "verify_imports_order x x = 0"
  by (simp add: verify_imports_order_def)

lemma check_file_canonical:
  "check_file env args text =
     (case canonical_imports env (Some (main_override args)) text of
        Inl e \<Rightarrow> Inl e
      | Inr out \<Rightarrow> Inr (verify_imports_order (fst (get_import_lines text)) out))"
  by (cases "get_import_lines text")
     (auto simp: check_file_def canonical_imports_def group_and_order_def split: sum.splits)

subsection \<open>The fixed point\<close>

lemma canonical_imports_alt:
  "canonical_imports env ov text = group_and_order env ov (snd (get_import_lines text))"
  by (simp add: canonical_imports_def)

lemma group_and_order_fixpoint:
  assumes run: "group_and_order env ov S = Inr out"
    and st: "\<forall>s \<in> set S. is_statement s"
  shows "\<exists>S'. get_import_lines out = (out, S') \<and> group_and_order env ov S' = Inr out"
proof -
  let ?c = "category_of env ov"
  let ?F = "\<lambda>k. filter (\<lambda>l. ?c l = Inr k) S"
  let ?Y = "\<lambda>k. sort_key module_key (?F k)"
  let ?S' = "concat (map ?Y category_keys)"
  from group_and_order_success [OF run]
  have ok: "\<forall>l \<in> set S. \<exists>k. ?c l = Inr k" and keys: "\<forall>l \<in> set S. module_key l \<noteq> None"
    by auto
  have out: "out = py_join [nl, nl] (filter (\<lambda>b. b \<noteq> [])
       (map (\<lambda>k. py_join [nl] (?Y k)) category_keys))"
    using run unfolding group_and_order_eq [OF ok keys] by simp
  have sub: "set (?Y k) \<subseteq> set S" for k by auto
  have ne: "\<forall>s \<in> set S. s \<noteq> []" using keys module_key_short(1) by auto
  have nf: "\<forall>s \<in> set S. nl \<notin> set s" using st unfolding is_statement_def by auto
  define bs where "bs = filter (\<lambda>b. b \<noteq> []) (map ?Y category_keys)"
  have yne: "\<forall>k \<in> set category_keys. \<forall>y \<in> set (?Y k). y \<noteq> []"
    using ne by auto
  have f: "filter (\<lambda>b. b \<noteq> []) (map (\<lambda>k. py_join [nl] (?Y k)) category_keys) =
      map (py_join [nl]) bs"
    unfolding bs_def using yne by (rule filter_map_blocks)
  have bsub: "\<forall>b \<in> set bs. set b \<subseteq> set S"
    unfolding bs_def using sub by auto
  have wf: "\<forall>b \<in> set bs. b \<noteq> [] \<and> (\<forall>x \<in> set b. x \<noteq> [] \<and> nl \<notin> set x)"
  proof
    fix b assume b: "b \<in> set bs"
    then have "b \<noteq> []" unfolding bs_def by simp
    moreover have "set b \<subseteq> set S" using bsub b by blast
    ultimately show "b \<noteq> [] \<and> (\<forall>x \<in> set b. x \<noteq> [] \<and> nl \<notin> set x)"
      using ne nf by blast
  qed
  let ?L = "py_join [[]] bs"
  have o: "out = py_join [nl] ?L"
    unfolding out f using wf by (intro join_of_blocks) simp
  have "set ?L \<subseteq> insert [] (\<Union> (set ` set bs))" by (rule set_join_blocks)
  then have lst: "\<forall>l \<in> set ?L. l = [] \<or> is_statement l"
    using bsub st by blast
  have ends: "?L \<noteq> [] \<longrightarrow> hd ?L \<noteq> [] \<and> last ?L \<noteq> []"
    using lines_of_blocks [OF wf] by (cases "bs = []") auto
  have "filter (\<lambda>i. i \<noteq> []) ?L = concat bs"
    using wf by (intro filter_join_blocks) simp
  also have "\<dots> = ?S'"
    unfolding bs_def by (rule concat_filter_nonempty)
  finally have fl: "filter (\<lambda>i. i \<noteq> []) ?L = ?S'" .
  have g: "get_import_lines out = (out, ?S')"
    unfolding o using reextract [OF lst ends] fl by simp
  have sub': "set ?S' \<subseteq> set S" by auto
  have ok': "\<forall>l \<in> set ?S'. \<exists>k. ?c l = Inr k" using ok sub' by blast
  have keys': "\<forall>l \<in> set ?S'. module_key l \<noteq> None" using keys sub' by blast
  have d: "distinct category_keys" by (simp add: category_keys_def)
  have cat: "\<forall>j \<in> set category_keys. \<forall>s \<in> set (?Y j). ?c s = Inr j" by auto
  have F': "filter (\<lambda>l. ?c l = Inr k) ?S' = ?Y k" if "k \<in> set category_keys" for k
    using d that cat by (rule filter_concat_distinct)
  have srt: "sort_key module_key (?Y k) = ?Y k" for k
    by (rule sort_key_id_if_sorted) simp
  have m: "map (\<lambda>k. py_join [nl] (sort_key module_key (filter (\<lambda>l. ?c l = Inr k) ?S'))) category_keys
      = map (\<lambda>k. py_join [nl] (?Y k)) category_keys"
    by (rule map_cong [OF refl]) (simp only: F' srt)
  have "group_and_order env ov ?S' = Inr out"
    unfolding group_and_order_eq [OF ok' keys'] out m by (rule refl)
  with g show ?thesis by blast
qed

text \<open>
  The dictionary that the grouper builds from the statements of the extractor holds
  statements without a newline only.
\<close>

lemma grouper_stores_single_lines:
  assumes "construct_import_dict env ov (snd (get_import_lines t)) = Inr g"
  shows "\<forall>key \<in> set category_keys. \<forall>xs. g key = Some (StrList xs) \<longrightarrow>
           (\<forall>s \<in> set xs. nl \<notin> set s)"
proof -
  let ?S = "snd (get_import_lines t)"
  have st: "\<forall>s \<in> set ?S. nl \<notin> set s"
    unfolding get_import_lines_block using extracted_statement is_statement_def by auto
  from assms have ok: "\<forall>l \<in> set ?S. \<exists>k. category_of env ov l = Inr k"
    unfolding construct_import_dict_def by (rule group_lines_success)
  from assms have "g = (\<lambda>k. if filter (\<lambda>l. category_of env ov l = Inr k) ?S = [] then None
               else Some (StrList (filter (\<lambda>l. category_of env ov l = Inr k) ?S)))"
    unfolding construct_import_dict_result [OF ok] by simp
  then show ?thesis using st by (auto split: if_splits)
qed

subsection \<open>Interpreters whose outcomes do not depend on the state\<close>

lemma load_module_in_stateless:
  "\<forall>s m. fst (interp s m) = env m \<Longrightarrow> fst (load_module_in interp m s) = load_module env m"
  by (auto simp: load_module_in_def load_module_def split: prod.splits load_outcome.splits)
     (metis fst_conv load_outcome.distinct load_outcome.inject)+

lemma is_standard_module_in_stateless:
  assumes "\<forall>s m. fst (interp s m) = env m"
  shows "fst (is_standard_module_in interp ov m s) = is_standard_module env ov m"
proof -
  obtain r s' where l: "load_module_in interp m s = (r, s')" by (cases "load_module_in interp m s")
  then have "r = load_module env m"
    using load_module_in_stateless [OF assms, of m s] by simp
  with l show ?thesis
    by (simp add: is_standard_module_in_def is_standard_module_def Let_def
             split: sum.splits option.splits)
qed

lemma is_third_party_module_in_stateless:
  assumes "\<forall>s m. fst (interp s m) = env m"
  shows "fst (is_third_party_module_in interp ov m s) = is_third_party_module env ov m"
proof -
  obtain r s' where l: "load_module_in interp m s = (r, s')" by (cases "load_module_in interp m s")
  then have "r = load_module env m"
    using load_module_in_stateless [OF assms, of m s] by simp
  with l show ?thesis
    by (simp add: is_third_party_module_in_def is_third_party_module_def Let_def
             split: sum.splits option.splits)
qed

lemma group_lines_in_stateless:
  assumes "\<forall>s m. fst (interp s m) = env m"
  shows "fst (group_lines_in interp ov ls fin s) = group_lines env ov ls fin"
proof (induction ls arbitrary: fin s)
  case Nil
  show ?case by simp
next
  case (Cons l ls)
  show ?case
  proof (cases "get_module_name_from_import l")
    case (Inl e)
    then show ?thesis by simp
  next
    case (Inr m)
    obtain r1 s1 where a: "is_standard_module_in interp ov m s = (r1, s1)"
      by (cases "is_standard_module_in interp ov m s")
    then have r1: "is_standard_module env ov m = r1"
      using is_standard_module_in_stateless [OF assms, of ov m s] by simp
    obtain r2 s2 where b: "is_third_party_module_in interp ov m s1 = (r2, s2)"
      by (cases "is_third_party_module_in interp ov m s1")
    then have r2: "is_third_party_module env ov m = r2"
      using is_third_party_module_in_stateless [OF assms, of ov m s1] by simp
    show ?thesis
      using Inr a b Cons.IH
      by (simp add: r1 r2 split: sum.splits bool.splits)
  qed
qed

lemma canonical_imports_in_stateless:
  assumes "\<forall>s m. fst (interp s m) = env m"
  shows "fst (canonical_imports_in interp ov t s) = canonical_imports env ov t"
proof -
  let ?S = "snd (get_import_lines t)"
  obtain r s' where c: "construct_import_dict_in interp ov ?S s = (r, s')"
    by (cases "construct_import_dict_in interp ov ?S s")
  then have "construct_import_dict env ov ?S = r"
    using group_lines_in_stateless [OF assms, of ov ?S Map.empty s]
    by (simp add: construct_import_dict_in_def construct_import_dict_def)
  with c show ?thesis
    by (simp add: canonical_imports_in_def canonical_imports_def group_and_order_def
             split: sum.splits)
qed

lemma check_file_in_canonical:
  "fst (check_file_in interp args t s) =
     (case fst (canonical_imports_in interp (Some (main_override args)) t s) of
        Inl e \<Rightarrow> Inl e
      | Inr out \<Rightarrow> Inr (verify_imports_order (fst (get_import_lines t)) out))"
  by (cases "get_import_lines t")
     (auto simp: check_file_in_def canonical_imports_in_def split: sum.splits prod.splits)

lemma canonical_imports_fixpoint:
  assumes run: "canonical_imports env ov t = Inr out"
  shows "canonical_imports env ov out = Inr out \<and> fst (get_import_lines out) = out"
proof -
  let ?S = "snd (get_import_lines t)"
  have st: "\<forall>s \<in> set ?S. is_statement s"
    unfolding get_import_lines_block using extracted_statement by auto
  from run have "group_and_order env ov ?S = Inr out"
    unfolding canonical_imports_alt .
  from group_and_order_fixpoint [OF this st] obtain S'
    where g: "get_import_lines out = (out, S')" and r: "group_and_order env ov S' = Inr out"
    by blast
  have "canonical_imports env ov out = Inr out"
    unfolding canonical_imports_alt g using r by simp
  with g show ?thesis by simp
qed

text \<open>
  Claim C2, as the specification states it, fails: what loading a module gives can depend
  on the modules loaded before, and the orderer changes the order of the statements and
  so the order in which the modules are loaded. With the two modules that import each
  other, the canonical text of \<open>import a\<close>, \<open>import b\<close> puts \<open>b\<close> in the standard block
  and \<open>a\<close>, which failed to load, in the local block; run on that text, in a fresh
  interpreter, the pipeline loads \<open>b\<close> first, finds \<open>a\<close> loaded, and returns another
  text, so the diff reporter reports a change.
\<close>

theorem pipeline_not_idempotent_counterexample:
  "fst (canonical_imports_in circular_imports None ''import a\<newline>import b\<newline>'' []) =
     Inr ''import b\<newline>\<newline>import a''
   \<and> fst (canonical_imports_in circular_imports None ''import b\<newline>\<newline>import a'' []) =
     Inr ''import a\<newline>import b''
   \<and> fst (check_file_in circular_imports
        \<lparr>cl_standard = [], cl_third_party = [], cl_local = [], cl_files = []\<rparr>
        ''import b\<newline>\<newline>import a'' []) = Inr 1"
  by code_simp

text \<open>
  Claim C2, amended. When the outcome of loading a module does not depend on the state of
  the interpreter, and the pipeline returns a canonical text for a file, then the pipeline
  run on that text with the same overrides, from any state of the interpreter, returns the
  same text; the extractor reconstructs the text itself as the import block, so the diff
  reporter compares the text with itself and reports no change, and the loop body of
  \<open>main\<close> adds nothing to the exit status.
\<close>

theorem pipeline_idempotent_stable_loading:
  "(\<forall>s s' m. fst (interp s m) = fst (interp s' m)) \<Longrightarrow>
   fst (canonical_imports_in interp override text s0) = Inr out \<Longrightarrow>
     (\<forall>s. fst (canonical_imports_in interp override out s) = Inr out)
     \<and> fst (get_import_lines out) = out
     \<and> verify_imports_order (fst (get_import_lines out)) out = 0
     \<and> (override = Some (main_override args) \<longrightarrow>
          (\<forall>s. fst (check_file_in interp args out s) = Inr 0))"
proof -
  assume stable: "\<forall>s s' m. fst (interp s m) = fst (interp s' m)"
    and run: "fst (canonical_imports_in interp override text s0) = Inr out"
  define env where "env = (\<lambda>m. fst (interp s0 m))"
  have e: "\<forall>s m. fst (interp s m) = env m"
    unfolding env_def using stable by blast
  have c: "fst (canonical_imports_in interp ov t s) = canonical_imports env ov t" for ov t s
    by (rule canonical_imports_in_stateless [OF e])
  from run have "canonical_imports env override text = Inr out"
    unfolding c .
  from canonical_imports_fixpoint [OF this]
  have f: "canonical_imports env override out = Inr out" "fst (get_import_lines out) = out"
    by auto
  have "fst (check_file_in interp args out s) = Inr 0"
    if "override = Some (main_override args)" for s
    unfolding check_file_in_canonical c using f that by (simp add: verify_same)
  with f show ?thesis
    unfolding c by (simp add: verify_same)
qed

theorem pipeline_idempotent_stable_loading_witness:
  "fst (canonical_imports_in
     (\<lambda>s m. (if m = ''os'' then Loaded ''<module os from /usr/lib/python2.7/os.pyc>''
              else if m = ''sys'' then Loaded ''<module sys (built-in)>''
              else ImportFails, m # s))
     (Some (main_override \<lparr>cl_standard = [], cl_third_party = [], cl_local = [], cl_files = []\<rparr>))
     ''import sys\<newline>\<newline>from . import f\<newline>import os\<newline>x = 1\<newline>'' [])
     = Inr ''import os\<newline>import sys\<newline>\<newline>from . import f''
   \<and> fst (canonical_imports_in
     (\<lambda>s m. (if m = ''os'' then Loaded ''<module os from /usr/lib/python2.7/os.pyc>''
              else if m = ''sys'' then Loaded ''<module sys (built-in)>''
              else ImportFails, m # s))
     (Some (main_override \<lparr>cl_standard = [], cl_third_party = [], cl_local = [], cl_files = []\<rparr>))
     ''import os\<newline>import sys\<newline>\<newline>from . import f'' [''os'', ''sys''])
     = Inr ''import os\<newline>import sys\<newline>\<newline>from . import f''
   \<and> fst (check_file_in
     (\<lambda>s m. (if m = ''os'' then Loaded ''<module os from /usr/lib/python2.7/os.pyc>''
              else if m = ''sys'' then Loaded ''<module sys (built-in)>''
              else ImportFails, m # s))
     \<lparr>cl_standard = [], cl_third_party = [], cl_local = [], cl_files = []\<rparr>
     ''import os\<newline>import sys\<newline>\<newline>from . import f'' []) = Inr 0"
proof -
  let ?I = "\<lambda>s m. (if m = ''os'' then Loaded ''<module os from /usr/lib/python2.7/os.pyc>''
              else if m = ''sys'' then Loaded ''<module sys (built-in)>''
              else ImportFails, m # s)"
  let ?A = "\<lparr>cl_standard = [], cl_third_party = [], cl_local = [], cl_files = []\<rparr>"
  have stable: "\<forall>(s :: string list) s' m. fst (?I s m) = fst (?I s' m)"
    by simp
  have h: "fst (canonical_imports_in ?I (Some (main_override ?A))
     ''import sys\<newline>\<newline>from . import f\<newline>import os\<newline>x = 1\<newline>'' [])
     = Inr ''import os\<newline>import sys\<newline>\<newline>from . import f''"
    by code_simp
  note p = pipeline_idempotent_stable_loading [OF stable h, of ?A]
  have 1: "fst (canonical_imports_in ?I (Some (main_override ?A))
     ''import os\<newline>import sys\<newline>\<newline>from . import f'' [''os'', ''sys''])
     = Inr ''import os\<newline>import sys\<newline>\<newline>from . import f''"
    using p [THEN conjunct1] by (rule spec)
  have 2: "fst (check_file_in ?I ?A ''import os\<newline>import sys\<newline>\<newline>from . import f'' []) = Inr 0"
    using p [THEN conjunct2, THEN conjunct2, THEN conjunct2] by blast
  show ?thesis
    using h 1 2 by (intro conjI)
qed

end
